theory Spec2Isabelle
  imports Main "HOL-Library.Word"
begin

section \<open>The world the login flow runs in\<close>

text \<open>
  The authentication code of \<^verbatim>\<open>auth.ts\<close> talks to libraries that are not part of the
  repository: the HTTP client (node-fetch, wrapped by fetch-cookie), the HTML parser
  (cheerio), the WHATWG \<^verbatim>\<open>URL\<close> class, \<^verbatim>\<open>crypto\<close>, \<^verbatim>\<open>Date.now\<close> and the JSON reader.
  They are parameters of the model, collected in the record \<open>env\<close>; every function of
  the repository is translated over an arbitrary \<open>env\<close>.

  Strings are byte strings: the UTF-8 encoding of the JavaScript string.
\<close>

type_synonym byte = "8 word"

datatype http_method = GET | POST

datatype redirect_mode = Follow | Manual

record request =
  via_cookie_jar :: bool
  req_method :: http_method
  req_url :: string
  req_headers :: "(string \<times> string) list"
  req_body :: "string option"
  req_redirect :: redirect_mode

text \<open>
  A response as the code reads it: \<^verbatim>\<open>res.status\<close>, \<^verbatim>\<open>res.headers.get("location")\<close>
  (\<open>None\<close> for \<^verbatim>\<open>null\<close>) and the text of the body.
\<close>

record response =
  res_status :: nat
  res_location :: "string option"
  res_body :: string

definition res_ok :: "response \<Rightarrow> bool" where
  "res_ok res = (200 \<le> res_status res \<and> res_status res \<le> 299)"

text \<open>
  What cheerio's selectors return on a parsed document, for the selectors the code uses:
  the \<^verbatim>\<open>input\<close> elements inside \<^verbatim>\<open>form\<close> elements in document order with their
  \<^verbatim>\<open>name\<close> and \<^verbatim>\<open>value\<close> attributes, the \<^verbatim>\<open>action\<close> attribute of each form, the text
  of \<^verbatim>\<open>.error-message\<close> and \<^verbatim>\<open>.alert-error\<close>, the \<^verbatim>\<open>content\<close> attribute of the first
  \<^verbatim>\<open>meta[http-equiv="refresh"]\<close> and the concatenated text of the scripts.
\<close>

record input_el =
  input_name :: "string option"
  input_value :: "string option"

record form_el =
  form_action :: "string option"
  form_inputs :: "input_el list"

record html_doc =
  doc_forms :: "form_el list"
  doc_error_message :: string
  doc_alert_error :: string
  doc_meta_refresh :: "string option"
  doc_scripts :: string

text \<open>A parsed \<^verbatim>\<open>URL\<close> object: its \<^verbatim>\<open>href\<close> and the list behind \<^verbatim>\<open>searchParams\<close>.\<close>

record url =
  url_href :: string
  url_searchParams :: "(string \<times> string) list"

text \<open>
  The body of the token endpoint, as \<^verbatim>\<open>res.json()\<close> delivers it, for a body of the shape
  the endpoint promises: \<^verbatim>\<open>expires_in\<close> an integer, \<^verbatim>\<open>token_type\<close> and \<^verbatim>\<open>scope\<close> strings.
  \<open>tr_access_token\<close> is \<open>None\<close> when the property is missing. A body without a numeric
  \<^verbatim>\<open>expires_in\<close> is not represented: on it the code computes \<^verbatim>\<open>NaN\<close> and writes
  \<^verbatim>\<open>expiresAt: null\<close>.
\<close>

record TripItConfig =
  clientId :: string
  clientSecret :: string
  username :: string
  password :: string

record token_response =
  tr_access_token :: "string option"
  tr_expires_in :: int
  tr_token_type :: string
  tr_scope :: string

record 'x env =
  net_fetch :: "request \<Rightarrow> 'x \<Rightarrow> response option \<times> 'x"
  date_now :: "'x \<Rightarrow> int"
  random_bytes :: "nat \<Rightarrow> 'x \<Rightarrow> byte list \<times> 'x"
  sha256 :: "string \<Rightarrow> byte list"
  cheerio_load :: "string \<Rightarrow> html_doc"
  new_URL :: "string \<Rightarrow> string \<Rightarrow> url option"
  res_json :: "string \<Rightarrow> token_response option"

text \<open>
  Errors are values. \<open>Error msg\<close> is \<^verbatim>\<open>throw new Error(msg)\<close> of the repository's
  code; the other three are thrown by the libraries: \<^verbatim>\<open>new URL\<close> on an invalid URL,
  \<^verbatim>\<open>fetch\<close> on a network failure, \<^verbatim>\<open>res.json()\<close> on a body that is not JSON.
\<close>

datatype error = Error string | InvalidURL | FetchFailed | InvalidJSON

text \<open>
  The interface \<^verbatim>\<open>CachedToken\<close>. \<open>access_token\<close> is \<open>None\<close> for \<^verbatim>\<open>undefined\<close>: the code
  copies the property from the token response without looking at its type.
\<close>

record cached_token =
  access_token :: "string option"
  expires_in :: int
  token_type :: string
  scope :: string
  expiresAt :: int

text \<open>
  The file \<^verbatim>\<open>TOKEN_CACHE_FILE\<close>: missing, holding something \<^verbatim>\<open>JSON.parse\<close> rejects, or
  holding a token. The content is kept as the value \<^verbatim>\<open>JSON.parse\<close> yields on it.
\<close>

datatype cache_file = Missing | Corrupt | Stored cached_token

text \<open>
  The state the code runs in: whatever lies outside the process (server, clock, entropy),
  the requests issued so far, oldest first, and the cache file.
\<close>

record 'x world =
  outside :: 'x
  requests :: "request list"
  token_cache :: cache_file

definition do_fetch :: "'x env \<Rightarrow> request \<Rightarrow> 'x world \<Rightarrow> response option \<times> 'x world" where
  "do_fetch E req w =
     (case net_fetch E req (outside w) of
        (r, x') \<Rightarrow> (r, w\<lparr>outside := x', requests := requests w @ [req]\<rparr>))"

section \<open>Constants\<close>

definition BASE_URL :: string where
  "BASE_URL = ''https://www.tripit.com''"

definition API_BASE_URL :: string where
  "API_BASE_URL = ''https://api.tripit.com''"

definition REDIRECT_URI :: string where
  "REDIRECT_URI = ''com.tripit://completeAuthorize''"

definition SCOPES :: string where
  "SCOPES = ''offline_access email''"

definition BROWSER_HEADERS :: "(string \<times> string) list" where
  "BROWSER_HEADERS =
     [(''User-Agent'',
       ''Mozilla/5.0 (Macintosh; Intel Mac OS X 10.15; rv:142.0) Gecko/20100101 Firefox/142.0''),
      (''Accept'', ''text/html,application/xhtml+xml,application/xml;q=0.9,*/*;q=0.8''),
      (''Accept-Language'', ''en-US,ja;q=0.7,en;q=0.3''),
      (''Accept-Encoding'', ''gzip, deflate, br, zstd''),
      (''DNT'', ''1''),
      (''Sec-GPC'', ''1''),
      (''Connection'', ''keep-alive''),
      (''Upgrade-Insecure-Requests'', ''1''),
      (''Sec-Fetch-Dest'', ''document''),
      (''Sec-Fetch-Mode'', ''navigate''),
      (''Sec-Fetch-Site'', ''cross-site''),
      (''Priority'', ''u=0, i''),
      (''Pragma'', ''no-cache''),
      (''Cache-Control'', ''no-cache'')]"

section \<open>followRedirects\<close>

definition has_form_input :: "html_doc \<Rightarrow> string \<Rightarrow> bool" where
  \<comment> \<open>\<^verbatim>\<open>$('form input[name="n"]').length !== 0\<close>\<close>
  "has_form_input doc n =
     (\<exists>i \<in> set (concat (map form_inputs (doc_forms doc))). input_name i = Some n)"

definition login_page_request :: "string \<Rightarrow> request" where
  "login_page_request currentUrl =
     \<lparr>via_cookie_jar = True, req_method = GET, req_url = currentUrl,
      req_headers = BROWSER_HEADERS, req_body = None, req_redirect = Manual\<rparr>"

text \<open>
  The body of the \<^verbatim>\<open>for\<close> loop, from the value \<open>i\<close> of the counter on. The result is the
  pair \<^verbatim>\<open>{html, formAction}\<close>.
\<close>

function followRedirects_from ::
  "'x env \<Rightarrow> nat \<Rightarrow> string \<Rightarrow> 'x world \<Rightarrow> (error + string \<times> string) \<times> 'x world" where
  "followRedirects_from E i currentUrl w =
     (if i < 5 then
        (case do_fetch E (login_page_request currentUrl) w of
           (None, w') \<Rightarrow> (Inl FetchFailed, w')
         | (Some res, w') \<Rightarrow>
             if res_status res = 302 \<or> res_status res = 303 then
               (case res_location res of
                  None \<Rightarrow> (Inl (Error ''Redirect without location header''), w')
                | Some location \<Rightarrow>
                    if location = [] then
                      (Inl (Error ''Redirect without location header''), w')
                    else
                      (case new_URL E location currentUrl of
                         None \<Rightarrow> (Inl InvalidURL, w')
                       | Some u \<Rightarrow> followRedirects_from E (Suc i) (url_href u) w'))
             else
               (let doc = cheerio_load E (res_body res) in
                if \<not> has_form_input doc ''username'' \<or> \<not> has_form_input doc ''password''
                then (Inl (Error ''Login form not found''), w')
                else (Inr (res_body res, currentUrl), w')))
      else (Inl (Error ''Too many redirects while getting login form''), w))"
  by pat_completeness auto
termination
  by (relation "measure (\<lambda>(E, i, currentUrl, w). 5 - i)") auto

definition followRedirects ::
  "'x env \<Rightarrow> string \<Rightarrow> 'x world \<Rightarrow> (error + string \<times> string) \<times> 'x world" where
  "followRedirects E url w = followRedirects_from E 0 url w"


section \<open>JavaScript objects as the code uses them\<close>

text \<open>
  An object built by the code is its list of own properties in the order in which
  JavaScript enumerates them (\<^verbatim>\<open>Object.keys\<close>, \<^verbatim>\<open>JSON.stringify\<close>,
  \<^verbatim>\<open>new URLSearchParams(obj)\<close>): array indices first, in ascending numeric order, then
  the other keys in the order of their creation. An array index is the canonical decimal
  string of a number below \<open>2^32 - 1\<close>.
\<close>

definition is_digit :: "char \<Rightarrow> bool" where
  "is_digit c = (48 \<le> (of_char c :: nat) \<and> (of_char c :: nat) \<le> 57)"

definition nat_of_digits :: "string \<Rightarrow> nat" where
  "nat_of_digits s = fold (\<lambda>c n. 10 * n + ((of_char c :: nat) - 48)) s 0"

definition is_array_index :: "string \<Rightarrow> bool" where
  "is_array_index s =
     (s \<noteq> [] \<and> list_all is_digit s \<and> (length s = 1 \<or> hd s \<noteq> CHR ''0'')
      \<and> nat_of_digits s < 4294967295)"

fun insert_index :: "string \<Rightarrow> 'v \<Rightarrow> (string \<times> 'v) list \<Rightarrow> (string \<times> 'v) list" where
  "insert_index k v [] = [(k, v)]"
| "insert_index k v ((k', v') # ps) =
     (if is_array_index k' \<and> nat_of_digits k' < nat_of_digits k
      then (k', v') # insert_index k v ps
      else (k, v) # (k', v') # ps)"

text \<open>
  \<^verbatim>\<open>obj[k] = v\<close> on an object that was created by \<^verbatim>\<open>{}\<close> and holds data properties
  only. Assigning to \<^verbatim>\<open>__proto__\<close> runs the setter inherited from \<^verbatim>\<open>Object.prototype\<close>
  and creates no own property.
\<close>

definition js_assign :: "string \<Rightarrow> 'v \<Rightarrow> (string \<times> 'v) list \<Rightarrow> (string \<times> 'v) list" where
  "js_assign k v ps =
     (if k = ''__proto__'' then ps
      else if k \<in> set (map fst ps) then map (\<lambda>(k', v'). if k' = k then (k', v) else (k', v')) ps
      else if is_array_index k then insert_index k v ps
      else ps @ [(k, v)])"

definition js_object :: "(string \<times> 'v) list \<Rightarrow> (string \<times> 'v) list" where
  \<comment> \<open>an object literal \<^verbatim>\<open>{k1: v1, ..., kn: vn}\<close>\<close>
  "js_object kvs = fold (\<lambda>(k, v) ps. js_assign k v ps) kvs []"

section \<open>Printing and percent-encoding\<close>

definition digit_char :: "nat \<Rightarrow> char" where
  "digit_char n = ''0123456789'' ! n"

fun string_of_nat :: "nat \<Rightarrow> string" where
  "string_of_nat n =
     (if n < 10 then [digit_char n] else string_of_nat (n div 10) @ [digit_char (n mod 10)])"

definition hex_lower :: "byte \<Rightarrow> string" where
  \<comment> \<open>one byte of \<^verbatim>\<open>Buffer.toString("hex")\<close>\<close>
  "hex_lower b = [''0123456789abcdef'' ! (unat b div 16), ''0123456789abcdef'' ! (unat b mod 16)]"

definition to_hex :: "byte list \<Rightarrow> string" where
  "to_hex bs = concat (map hex_lower bs)"

definition percent_byte :: "char \<Rightarrow> string" where
  "percent_byte c =
     [CHR ''%'', ''0123456789ABCDEF'' ! ((of_char c :: nat) div 16),
      ''0123456789ABCDEF'' ! ((of_char c :: nat) mod 16)]"

definition is_alnum :: "char \<Rightarrow> bool" where
  "is_alnum c =
     (let n = (of_char c :: nat)
      in (48 \<le> n \<and> n \<le> 57) \<or> (65 \<le> n \<and> n \<le> 90) \<or> (97 \<le> n \<and> n \<le> 122))"

definition unreserved :: "char \<Rightarrow> bool" where
  \<comment> \<open>the characters \<^verbatim>\<open>encodeURIComponent\<close> leaves alone: \<^verbatim>\<open>A-Z a-z 0-9 - _ . ! ~ * ' ( )\<close>\<close>
  "unreserved c = (is_alnum c \<or> c \<in> set ''-_.!~*'' \<or> c = CHR 0x27 \<or> c \<in> set ''()'')"

definition encodeURIComponent :: "string \<Rightarrow> string" where
  \<comment> \<open>every other byte of the UTF-8 encoding is escaped\<close>
  "encodeURIComponent s = concat (map (\<lambda>c. if unreserved c then [c] else percent_byte c) s)"

definition form_urlencode_string :: "string \<Rightarrow> string" where
  \<comment> \<open>the serializer of \<^verbatim>\<open>application/x-www-form-urlencoded\<close>\<close>
  "form_urlencode_string s =
     concat (map (\<lambda>c. if is_alnum c \<or> c \<in> set ''*-._'' then [c]
                       else if c = CHR '' '' then ''+'' else percent_byte c) s)"

fun join_amp :: "string list \<Rightarrow> string" where
  "join_amp [] = []"
| "join_amp [s] = s"
| "join_amp (s # t # ss) = s @ ''&'' @ join_amp (t # ss)"

definition URLSearchParams_toString :: "(string \<times> string) list \<Rightarrow> string" where
  \<comment> \<open>\<^verbatim>\<open>new URLSearchParams(obj).toString()\<close>, for \<open>obj\<close> given by its properties\<close>
  "URLSearchParams_toString ps =
     join_amp (map (\<lambda>(k, v). form_urlencode_string k @ ''='' @ form_urlencode_string v) ps)"

definition searchParams_get :: "(string \<times> string) list \<Rightarrow> string \<Rightarrow> string option" where
  \<comment> \<open>\<^verbatim>\<open>searchParams.get(name)\<close>: the value of the first pair with that name, or \<^verbatim>\<open>null\<close>\<close>
  "searchParams_get ps name = map_of ps name"


section \<open>submitLogin\<close>

text \<open>
  The two regular expressions of \<^verbatim>\<open>submitLogin\<close>. \<^verbatim>\<open>.\<close> matches every character except
  the line terminators (LF, CR, U+2028, U+2029); \<^verbatim>\<open>\s\<close> matches the white space and line
  terminators of ECMAScript. Both are written out on UTF-8.
\<close>

fun has_line_terminator :: "string \<Rightarrow> bool" where
  "has_line_terminator [] = False"
| "has_line_terminator (c # cs) =
     (c = CHR 0x0A \<or> c = CHR 0x0D
      \<or> take 3 (c # cs) = [CHR 0xE2, CHR 0x80, CHR 0xA8]
      \<or> take 3 (c # cs) = [CHR 0xE2, CHR 0x80, CHR 0xA9]
      \<or> has_line_terminator cs)"

fun match_meta_url :: "string \<Rightarrow> string option" where
  \<comment> \<open>\<^verbatim>\<open>meta.match(/URL=(.+)$/)?.[1]\<close>\<close>
  "match_meta_url [] = None"
| "match_meta_url (c # cs) =
     (let rest = drop 4 (c # cs)
      in if take 4 (c # cs) = ''URL='' \<and> rest \<noteq> [] \<and> \<not> has_line_terminator rest
         then Some rest else match_meta_url cs)"

definition white_space_len :: "string \<Rightarrow> nat" where
  \<comment> \<open>the length of the white space character the string starts with, 0 if there is none\<close>
  "white_space_len s =
     (case s of
        [] \<Rightarrow> 0
      | c # cs \<Rightarrow>
          if c \<in> {CHR 0x09, CHR 0x0A, CHR 0x0B, CHR 0x0C, CHR 0x0D, CHR 0x20} then 1
          else if take 2 s = [CHR 0xC2, CHR 0xA0] then 2
          else if take 3 s = [CHR 0xE1, CHR 0x9A, CHR 0x80] then 3
          else if take 2 s = [CHR 0xE2, CHR 0x80] \<and> length s \<ge> 3
                  \<and> ((0x80 \<le> (of_char (s ! 2) :: nat) \<and> (of_char (s ! 2) :: nat) \<le> 0x8A)
                      \<or> s ! 2 \<in> {CHR 0xA8, CHR 0xA9, CHR 0xAF}) then 3
          else if take 3 s = [CHR 0xE2, CHR 0x81, CHR 0x9F] then 3
          else if take 3 s = [CHR 0xE3, CHR 0x80, CHR 0x80] then 3
          else if take 3 s = [CHR 0xEF, CHR 0xBB, CHR 0xBF] then 3
          else 0)"

function skip_white_space :: "string \<Rightarrow> string" where
  \<comment> \<open>\<^verbatim>\<open>\s*\<close>\<close>
  "skip_white_space s =
     (if white_space_len s = 0 then s else skip_white_space (drop (white_space_len s) s))"
  by pat_completeness auto
termination
proof (relation "measure length")
  show "wf (measure length)" by simp
next
  fix s :: string
  assume "white_space_len s \<noteq> 0"
  then have "s \<noteq> []" by (auto simp: white_space_len_def)
  with \<open>white_space_len s \<noteq> 0\<close> show "(drop (white_space_len s) s, s) \<in> measure length"
    by simp
qed

definition is_quote :: "char \<Rightarrow> bool" where
  "is_quote c = (c = CHR 0x22 \<or> c = CHR 0x27)"

definition match_assigned_literal :: "string \<Rightarrow> string option" where
  \<comment> \<open>\<^verbatim>\<open>\s*=\s*["']([^"']+)["']\<close> at the start of the string\<close>
  "match_assigned_literal s =
     (case skip_white_space s of
        [] \<Rightarrow> None
      | c # r \<Rightarrow>
          if c \<noteq> CHR ''='' then None
          else (case skip_white_space r of
                  [] \<Rightarrow> None
                | q # r' \<Rightarrow>
                    if \<not> is_quote q then None
                    else let lit = takeWhile (\<lambda>x. \<not> is_quote x) r';
                             after = dropWhile (\<lambda>x. \<not> is_quote x) r'
                         in if lit \<noteq> [] \<and> after \<noteq> [] then Some lit else None))"

definition starts_with :: "string \<Rightarrow> string \<Rightarrow> bool" where
  "starts_with p s = (take (length p) s = p)"

fun match_script_redirect :: "string \<Rightarrow> string option" where
  \<comment> \<open>\<^verbatim>\<open>scripts.match(/(?:window\.location|window\.location\.href)\s*=\s*["']([^"']+)["']/)?.[1]\<close>\<close>
  "match_script_redirect [] = None"
| "match_script_redirect (c # cs) =
     (let s = c # cs;
          first = (if starts_with ''window.location'' s
                   then match_assigned_literal (drop (length ''window.location'') s) else None);
          second = (if starts_with ''window.location.href'' s
                    then match_assigned_literal (drop (length ''window.location.href'') s)
                    else None)
      in case first of
           Some lit \<Rightarrow> Some lit
         | None \<Rightarrow> (case second of Some lit \<Rightarrow> Some lit | None \<Rightarrow> match_script_redirect cs))"

definition capture_input :: "input_el \<Rightarrow> (string \<times> string) list \<Rightarrow> (string \<times> string) list" where
  \<comment> \<open>the callback of \<^verbatim>\<open>$("form input").each\<close>\<close>
  "capture_input el submitData =
     (let value = (case input_value el of None \<Rightarrow> [] | Some v \<Rightarrow> v)
      in case input_name el of
           None \<Rightarrow> submitData
         | Some name \<Rightarrow> if name = [] then submitData else js_assign name value submitData)"

definition form_fields :: "html_doc \<Rightarrow> (string \<times> string) list" where
  \<comment> \<open>\<^verbatim>\<open>submitData\<close> when the loop over the inputs has ended\<close>
  "form_fields doc = fold capture_input (concat (map form_inputs (doc_forms doc))) []"

definition login_fields :: "TripItConfig \<Rightarrow> html_doc \<Rightarrow> (string \<times> string) list" where
  \<comment> \<open>\<^verbatim>\<open>submitData\<close> when the credentials have been written\<close>
  "login_fields config doc =
     js_assign ''password'' (password config)
       (js_assign ''username'' (username config) (form_fields doc))"

definition first_form_action :: "html_doc \<Rightarrow> string option" where
  \<comment> \<open>\<^verbatim>\<open>$("form").attr("action")\<close>: the attribute of the first form\<close>
  "first_form_action doc = (case doc_forms doc of [] \<Rightarrow> None | f # _ \<Rightarrow> form_action f)"

definition login_request :: "TripItConfig \<Rightarrow> html_doc \<Rightarrow> string \<Rightarrow> string \<Rightarrow> request" where
  "login_request config doc finalUrl formAction =
     \<lparr>via_cookie_jar = True, req_method = POST, req_url = finalUrl,
      req_headers =
        fold (\<lambda>(k, v) ps. js_assign k v ps)
          [(''Content-Type'', ''application/x-www-form-urlencoded''),
           (''Sec-Fetch-Site'', ''same-origin''),
           (''Sec-Fetch-User'', ''?1''),
           (''Origin'', BASE_URL),
           (''Referer'', formAction)]
          (js_object BROWSER_HEADERS),
      req_body = Some (URLSearchParams_toString (login_fields config doc)),
      req_redirect = Manual\<rparr>"

definition login_response_target :: "'x env \<Rightarrow> response \<Rightarrow> error + string" where
  \<comment> \<open>what \<^verbatim>\<open>submitLogin\<close> does with the response to the POST\<close>
  "login_response_target E res =
     (if res_status res = 403 then Inl (Error ''Login failed (403)'')
      else if res_status res = 302 \<or> res_status res = 303 then
        (case res_location res of
           None \<Rightarrow> Inl (Error ''No redirect location after login'')
         | Some location \<Rightarrow>
             if location = [] then Inl (Error ''No redirect location after login'')
             else Inr location)
      else if res_status res = 200 then
        (let r = cheerio_load E (res_body res);
             errorMsg = (if doc_error_message r \<noteq> [] then doc_error_message r
                         else doc_alert_error r);
             meta_target = (case doc_meta_refresh r of
                              None \<Rightarrow> None
                            | Some meta \<Rightarrow> match_meta_url meta)
         in if errorMsg \<noteq> [] then Inl (Error (''Login failed: '' @ errorMsg))
            else case meta_target of
                   Some target \<Rightarrow> Inr target
                 | None \<Rightarrow>
                     (case match_script_redirect (doc_scripts r) of
                        Some target \<Rightarrow> Inr target
                      | None \<Rightarrow> Inl (Error ''Could not find redirect URL in login response'')))
      else Inl (Error (''Unexpected login response status: '' @ string_of_nat (res_status res))))"

definition submitLogin ::
  "'x env \<Rightarrow> TripItConfig \<Rightarrow> string \<Rightarrow> string \<Rightarrow> 'x world \<Rightarrow> (error + string) \<times> 'x world" where
  "submitLogin E config formHtml formAction w =
     (let doc = cheerio_load E formHtml
      in case first_form_action doc of
           None \<Rightarrow> (Inl (Error ''No form action URL found''), w)
         | Some formActionUrl \<Rightarrow>
             if formActionUrl = [] then (Inl (Error ''No form action URL found''), w)
             else
               (case new_URL E formActionUrl formAction of
                  None \<Rightarrow> (Inl InvalidURL, w)
                | Some u \<Rightarrow>
                    (case do_fetch E (login_request config doc (url_href u) formAction) w of
                       (None, w') \<Rightarrow> (Inl FetchFailed, w')
                     | (Some res, w') \<Rightarrow> (login_response_target E res, w'))))"


section \<open>exchangeCodeForToken and the token cache\<close>

definition token_request :: "TripItConfig \<Rightarrow> string \<Rightarrow> string \<Rightarrow> request" where
  "token_request config code codeVerifier =
     \<lparr>via_cookie_jar = False, req_method = POST, req_url = API_BASE_URL @ ''/oauth2/token'',
      req_headers = [(''Content-Type'', ''application/x-www-form-urlencoded'')],
      req_body = Some (URLSearchParams_toString (js_object
        [(''grant_type'', ''authorization_code''),
         (''code'', code),
         (''redirect_uri'', REDIRECT_URI),
         (''client_id'', clientId config),
         (''code_verifier'', codeVerifier)])),
      req_redirect = Follow\<rparr>"

definition exchangeCodeForToken ::
  "'x env \<Rightarrow> TripItConfig \<Rightarrow> string \<Rightarrow> string \<Rightarrow> 'x world
     \<Rightarrow> (error + token_response) \<times> 'x world" where
  "exchangeCodeForToken E config code codeVerifier w =
     (case do_fetch E (token_request config code codeVerifier) w of
        (None, w') \<Rightarrow> (Inl FetchFailed, w')
      | (Some res, w') \<Rightarrow>
          if \<not> res_ok res then
            (Inl (Error (''Token exchange failed ('' @ string_of_nat (res_status res) @ ''): ''
                         @ res_body res)), w')
          else (case res_json E (res_body res) of
                  None \<Rightarrow> (Inl InvalidJSON, w')
                | Some tokenResponse \<Rightarrow> (Inr tokenResponse, w')))"

definition loadCachedToken :: "'x world \<Rightarrow> cached_token option" where
  "loadCachedToken w =
     (case token_cache w of Missing \<Rightarrow> None | Corrupt \<Rightarrow> None | Stored c \<Rightarrow> Some c)"

text \<open>
  Numbers are integers. The code computes \<^verbatim>\<open>expiresAt\<close> on doubles, which agrees with the
  computation on \<open>int\<close> as long as the time, \<^verbatim>\<open>expires_in\<close> and every intermediate value
  are safe integers (at most \<open>2^53 - 1\<close> in absolute value); beyond that the code rounds.
\<close>

definition cacheToken :: "'x env \<Rightarrow> token_response \<Rightarrow> 'x world \<Rightarrow> 'x world" where
  "cacheToken E tokenResponse w =
     w\<lparr>token_cache := Stored
         \<lparr>access_token = tr_access_token tokenResponse,
          expires_in = tr_expires_in tokenResponse,
          token_type = tr_token_type tokenResponse,
          scope = tr_scope tokenResponse,
          expiresAt = date_now E (outside w) + (tr_expires_in tokenResponse - 30) * 1000\<rparr>\<rparr>"

section \<open>PKCE\<close>

definition base64_alphabet :: string where
  "base64_alphabet = ''ABCDEFGHIJKLMNOPQRSTUVWXYZabcdefghijklmnopqrstuvwxyz0123456789+/''"

definition b64 :: "nat \<Rightarrow> char" where
  "b64 n = base64_alphabet ! n"

fun base64 :: "byte list \<Rightarrow> string" where
  \<comment> \<open>\<^verbatim>\<open>Buffer.toString("base64")\<close>\<close>
  "base64 [] = []"
| "base64 [a] =
     [b64 (unat a div 4), b64 (unat a mod 4 * 16), CHR ''='', CHR ''='']"
| "base64 [a, b] =
     [b64 (unat a div 4), b64 (unat a mod 4 * 16 + unat b div 16), b64 (unat b mod 16 * 4),
      CHR ''='']"
| "base64 (a # b # c # bs) =
     [b64 (unat a div 4), b64 (unat a mod 4 * 16 + unat b div 16),
      b64 (unat b mod 16 * 4 + unat c div 64), b64 (unat c mod 64)] @ base64 bs"

definition replace_all_char :: "char \<Rightarrow> char \<Rightarrow> string \<Rightarrow> string" where
  \<comment> \<open>\<^verbatim>\<open>s.replace(/x/g, "y")\<close> for single characters\<close>
  "replace_all_char x y s = map (\<lambda>c. if c = x then y else c) s"

definition strip_trailing_equals :: "string \<Rightarrow> string" where
  \<comment> \<open>\<^verbatim>\<open>s.replace(/=+$/, "")\<close>\<close>
  "strip_trailing_equals s = rev (dropWhile (\<lambda>c. c = CHR ''='') (rev s))"

definition code_challenge :: "'x env \<Rightarrow> string \<Rightarrow> string" where
  "code_challenge E codeVerifier =
     strip_trailing_equals
       (replace_all_char CHR ''/'' CHR ''_''
          (replace_all_char CHR ''+'' CHR ''-'' (base64 (sha256 E codeVerifier))))"

definition authorize_url :: "TripItConfig \<Rightarrow> string \<Rightarrow> string \<Rightarrow> string" where
  "authorize_url config state codeChallenge =
     BASE_URL @ ''/auth/oauth2/authorize?''
     @ ''client_id='' @ encodeURIComponent (clientId config)
     @ ''&response_type=code''
     @ ''&redirect_uri='' @ encodeURIComponent REDIRECT_URI
     @ ''&scope='' @ encodeURIComponent SCOPES
     @ ''&state='' @ encodeURIComponent state
     @ ''&code_challenge='' @ encodeURIComponent codeChallenge
     @ ''&code_challenge_method=S256''
     @ ''&response_mode=query''
     @ ''&action=sign_in''"

text \<open>The unpadded base64url encoding of RFC 4648, written directly.\<close>

definition base64url_alphabet :: string where
  "base64url_alphabet = ''ABCDEFGHIJKLMNOPQRSTUVWXYZabcdefghijklmnopqrstuvwxyz0123456789-_''"

definition b64url :: "nat \<Rightarrow> char" where
  "b64url n = base64url_alphabet ! n"

fun base64url_unpadded :: "byte list \<Rightarrow> string" where
  "base64url_unpadded [] = []"
| "base64url_unpadded [a] = [b64url (unat a div 4), b64url (unat a mod 4 * 16)]"
| "base64url_unpadded [a, b] =
     [b64url (unat a div 4), b64url (unat a mod 4 * 16 + unat b div 16),
      b64url (unat b mod 16 * 4)]"
| "base64url_unpadded (a # b # c # bs) =
     [b64url (unat a div 4), b64url (unat a mod 4 * 16 + unat b div 16),
      b64url (unat b mod 16 * 4 + unat c div 64), b64url (unat c mod 64)]
     @ base64url_unpadded bs"

section \<open>authenticate\<close>

definition home_request :: request where
  "home_request =
     \<lparr>via_cookie_jar = True, req_method = GET, req_url = BASE_URL @ ''/home'',
      req_headers = BROWSER_HEADERS, req_body = None, req_redirect = Follow\<rparr>"

record pkce =
  codeVerifier :: string
  codeChallenge :: string
  state :: string

definition pkce_setup :: "'x env \<Rightarrow> 'x world \<Rightarrow> pkce \<times> 'x world" where
  \<comment> \<open>the lines under \<^verbatim>\<open>// PKCE setup\<close>\<close>
  "pkce_setup E w =
     (case random_bytes E 32 (outside w) of
        (b1, x1) \<Rightarrow>
          (case random_bytes E 16 x1 of
             (b2, x2) \<Rightarrow>
               (\<lparr>codeVerifier = to_hex b1,
                 codeChallenge = code_challenge E (to_hex b1),
                 state = to_hex b2\<rparr>,
                w\<lparr>outside := x2\<rparr>)))"

definition login_flow ::
  "'x env \<Rightarrow> TripItConfig \<Rightarrow> 'x world \<Rightarrow> (error + pkce \<times> string) \<times> 'x world" where
  \<comment> \<open>\<^verbatim>\<open>authenticate\<close> from \<^verbatim>\<open>// Establish session\<close> to the return of \<^verbatim>\<open>submitLogin\<close>;
      the result is the PKCE material and \<^verbatim>\<open>redirectUrl\<close>\<close>
  "login_flow E config w =
     (case do_fetch E home_request w of
        (None, w1) \<Rightarrow> (Inl FetchFailed, w1)
      | (Some _, w1) \<Rightarrow>
          (case pkce_setup E w1 of
             (p, w2) \<Rightarrow>
               (case followRedirects E (authorize_url config (state p) (codeChallenge p)) w2 of
                  (Inl e, w3) \<Rightarrow> (Inl e, w3)
                | (Inr (html, formAction), w3) \<Rightarrow>
                    (case submitLogin E config html formAction w3 of
                       (Inl e, w4) \<Rightarrow> (Inl e, w4)
                     | (Inr redirectUrl, w4) \<Rightarrow> (Inr (p, redirectUrl), w4)))))"

definition exchange_and_cache ::
  "'x env \<Rightarrow> TripItConfig \<Rightarrow> pkce \<Rightarrow> string \<Rightarrow> 'x world
     \<Rightarrow> (error + string option) \<times> 'x world" where
  \<comment> \<open>\<^verbatim>\<open>authenticate\<close> from \<^verbatim>\<open>// Exchange code for token\<close> to its end\<close>
  "exchange_and_cache E config p code w =
     (case exchangeCodeForToken E config code (codeVerifier p) w of
        (Inl e, w') \<Rightarrow> (Inl e, w')
      | (Inr tokenResponse, w') \<Rightarrow>
          if tr_access_token tokenResponse = None \<or> tr_access_token tokenResponse = Some []
          then (Inl (Error ''No access_token in response''), w')
          else (Inr (tr_access_token tokenResponse), cacheToken E tokenResponse w'))"

definition complete_authorize ::
  "'x env \<Rightarrow> TripItConfig \<Rightarrow> pkce \<Rightarrow> string \<Rightarrow> 'x world
     \<Rightarrow> (error + string option) \<times> 'x world" where
  \<comment> \<open>\<^verbatim>\<open>authenticate\<close> from \<^verbatim>\<open>// Validate state and extract code\<close> to its end\<close>
  "complete_authorize E config p redirectUrl w =
     (case new_URL E redirectUrl ''http://localhost'' of
        None \<Rightarrow> (Inl InvalidURL, w)
      | Some parsedUrl \<Rightarrow>
          if searchParams_get (url_searchParams parsedUrl) ''state'' \<noteq> Some (state p)
          then (Inl (Error ''OAuth state mismatch''), w)
          else
            (case searchParams_get (url_searchParams parsedUrl) ''code'' of
               None \<Rightarrow> (Inl (Error ''Authorization code not found in redirect''), w)
             | Some code \<Rightarrow>
                 if code = [] then (Inl (Error ''Authorization code not found in redirect''), w)
                 else exchange_and_cache E config p code w))"

definition authenticate ::
  "'x env \<Rightarrow> TripItConfig \<Rightarrow> 'x world \<Rightarrow> (error + string option) \<times> 'x world" where
  "authenticate E config w =
     (case loadCachedToken w of
        Some cached \<Rightarrow>
          if expiresAt cached > date_now E (outside w) then (Inr (access_token cached), w)
          else (case login_flow E config w of
                  (Inl e, w') \<Rightarrow> (Inl e, w')
                | (Inr (p, redirectUrl), w') \<Rightarrow> complete_authorize E config p redirectUrl w')
      | None \<Rightarrow>
          (case login_flow E config w of
             (Inl e, w') \<Rightarrow> (Inl e, w')
           | (Inr (p, redirectUrl), w') \<Rightarrow> complete_authorize E config p redirectUrl w'))"


section \<open>orderObjectByKeys, clean and the update payloads\<close>

text \<open>
  The values that flow through \<^verbatim>\<open>clean\<close> and \<^verbatim>\<open>orderObjectByKeys\<close>: JSON-like data. An
  object is a plain object (its prototype is \<^verbatim>\<open>Object.prototype\<close>) given by its own
  properties in enumeration order; numbers are integers. \<open>ProtoMember k\<close> is the value of
  the property \<open>k\<close> of \<^verbatim>\<open>Object.prototype\<close>, which every plain object inherits: a
  built-in function, or \<^verbatim>\<open>Object.prototype\<close> itself for \<^verbatim>\<open>__proto__\<close>.
\<close>

datatype jsval =
    Undefined
  | Null
  | Bool bool
  | Num int
  | Str string
  | Arr "jsval list"
  | Obj "(string \<times> jsval) list"
  | ProtoMember string

definition object_prototype_keys :: "string list" where
  "object_prototype_keys =
     [''constructor'', ''__defineGetter__'', ''__defineSetter__'', ''hasOwnProperty'',
      ''__lookupGetter__'', ''__lookupSetter__'', ''isPrototypeOf'', ''propertyIsEnumerable'',
      ''toString'', ''valueOf'', ''__proto__'', ''toLocaleString'']"

text \<open>\<^verbatim>\<open>key in obj\<close> and \<^verbatim>\<open>obj[key]\<close> on a plain object: own properties first, then the
  inherited ones.\<close>

definition js_in :: "string \<Rightarrow> (string \<times> jsval) list \<Rightarrow> bool" where
  "js_in key obj = (key \<in> set (map fst obj) \<or> key \<in> set object_prototype_keys)"

definition js_get :: "(string \<times> jsval) list \<Rightarrow> string \<Rightarrow> jsval" where
  "js_get obj key =
     (case map_of obj key of
        Some v \<Rightarrow> v
      | None \<Rightarrow> if key \<in> set object_prototype_keys then ProtoMember key else Undefined)"

definition orderObjectByKeys ::
  "(string \<times> jsval) list \<Rightarrow> string list \<Rightarrow> (string \<times> jsval) list" where
  "orderObjectByKeys obj orderArray =
     fold (\<lambda>key ordered. if js_in key obj then js_assign key (js_get obj key) ordered
                          else ordered)
       orderArray []"

text \<open>
  \<^verbatim>\<open>clean\<close>; \<open>clean_entries ps acc\<close> is the \<^verbatim>\<open>reduce\<close> over the entries \<open>ps\<close> of an object
  with accumulator \<open>acc\<close>. The function values \<open>ProtoMember k\<close> are returned as they
  are (\<^verbatim>\<open>typeof\<close> is not \<^verbatim>\<open>"object"\<close>), \<^verbatim>\<open>Object.prototype\<close> has no enumerable entry.

  The result is given by its own properties. For an entry named \<^verbatim>\<open>__proto__\<close> the
  assignment \<^verbatim>\<open>acc[k] = clean(v)\<close> creates no own property, as here; but when the value is
  an object it becomes the prototype of the accumulator, and the result is no longer a
  plain object: \<^verbatim>\<open>key in\<close> then finds the keys of that value too. The own properties
  stay what \<open>clean_entries\<close> says; \<open>js_in\<close> and \<open>js_get\<close> apply to the result only when no
  entry is named \<^verbatim>\<open>__proto__\<close>.
\<close>

fun clean :: "jsval \<Rightarrow> jsval"
  and clean_entries :: "(string \<times> jsval) list \<Rightarrow> (string \<times> jsval) list \<Rightarrow> (string \<times> jsval) list" where
  "clean (Arr vs) = Arr (filter (\<lambda>v. v \<noteq> Undefined \<and> v \<noteq> Null) (map clean vs))"
| "clean (Obj ps) = Obj (clean_entries ps [])"
| "clean (ProtoMember k) = (if k = ''__proto__'' then Obj [] else ProtoMember k)"
| "clean v = v"
| "clean_entries [] acc = acc"
| "clean_entries ((k, v) # ps) acc =
     clean_entries ps (if v = Undefined \<or> v = Null then acc else js_assign k (clean v) acc)"

text \<open>The field orders of \<^verbatim>\<open>constants.ts\<close> that the update operations use.\<close>

definition TRIP_UPDATE_FIELD_ORDER :: "string list" where
  "TRIP_UPDATE_FIELD_ORDER =
     [''primary_location'', ''TripPurposes'', ''is_private'', ''start_date'', ''display_name'',
      ''is_expensible'', ''end_date'', ''description'']"

definition LODGING_FIELD_ORDER :: "string list" where
  "LODGING_FIELD_ORDER =
     [''uuid'', ''trip_uuid'', ''trip_id'', ''is_client_traveler'', ''display_name'', ''Image'',
      ''supplier_name'', ''supplier_conf_num'', ''booking_rate'', ''is_purchased'', ''notes'',
      ''total_cost'', ''StartDateTime'', ''EndDateTime'', ''Address'']"

definition AIR_FIELD_ORDER :: "string list" where
  "AIR_FIELD_ORDER =
     [''uuid'', ''trip_uuid'', ''trip_id'', ''is_client_traveler'', ''display_name'', ''Image'',
      ''supplier_name'', ''supplier_conf_num'', ''is_purchased'', ''notes'', ''total_cost'',
      ''Segment'']"

definition TRANSPORT_FIELD_ORDER :: "string list" where
  "TRANSPORT_FIELD_ORDER =
     [''uuid'', ''trip_uuid'', ''trip_id'', ''is_client_traveler'', ''display_name'', ''Image'',
      ''is_purchased'', ''is_tripit_booking'', ''has_possible_cancellation'', ''Segment'']"

definition ACTIVITY_FIELD_ORDER :: "string list" where
  "ACTIVITY_FIELD_ORDER =
     [''uuid'', ''trip_uuid'', ''trip_id'', ''is_client_traveler'', ''display_name'', ''Image'',
      ''is_purchased'', ''notes'', ''StartDateTime'', ''EndDateTime'', ''Address'',
      ''location_name'']"

text \<open>
  The payload that an update operation hands to \<^verbatim>\<open>apiPost\<close>, as a function of the object
  the operation has assembled (\<^verbatim>\<open>tripData\<close>, \<^verbatim>\<open>lodgingObject\<close>, \<^verbatim>\<open>airObject\<close>,
  \<^verbatim>\<open>transportObject\<close>, \<^verbatim>\<open>activityObject\<close>):
  \<^verbatim>\<open>{ Name: orderObjectByKeys(clean(data), FIELD_ORDER) }\<close>.
\<close>

definition update_payload ::
  "string \<Rightarrow> string list \<Rightarrow> (string \<times> jsval) list \<Rightarrow> (string \<times> jsval) list" where
  "update_payload name fieldOrder data =
     js_object [(name, Obj (orderObjectByKeys (clean_entries data []) fieldOrder))]"

definition updateTrip_payload :: "(string \<times> jsval) list \<Rightarrow> (string \<times> jsval) list" where
  "updateTrip_payload tripData = update_payload ''Trip'' TRIP_UPDATE_FIELD_ORDER tripData"

definition updateHotel_payload :: "(string \<times> jsval) list \<Rightarrow> (string \<times> jsval) list" where
  "updateHotel_payload lodgingObject =
     update_payload ''LodgingObject'' LODGING_FIELD_ORDER lodgingObject"

definition updateFlight_payload :: "(string \<times> jsval) list \<Rightarrow> (string \<times> jsval) list" where
  "updateFlight_payload airObject = update_payload ''AirObject'' AIR_FIELD_ORDER airObject"

definition updateTransport_payload :: "(string \<times> jsval) list \<Rightarrow> (string \<times> jsval) list" where
  "updateTransport_payload transportObject =
     update_payload ''TransportObject'' TRANSPORT_FIELD_ORDER transportObject"

definition updateActivity_payload :: "(string \<times> jsval) list \<Rightarrow> (string \<times> jsval) list" where
  "updateActivity_payload activityObject =
     update_payload ''ActivityObject'' ACTIVITY_FIELD_ORDER activityObject"

section \<open>Predicates used to state the properties\<close>

text \<open>
  \<open>redirects_only E n url w\<close>: the first \<open>n\<close> responses that the chase started at \<open>url\<close>
  in \<open>w\<close> meets are redirects (302 or 303) with a location that resolves.
\<close>

fun redirects_only :: "'x env \<Rightarrow> nat \<Rightarrow> string \<Rightarrow> 'x world \<Rightarrow> bool" where
  "redirects_only E 0 currentUrl w = True"
| "redirects_only E (Suc n) currentUrl w =
     (case do_fetch E (login_page_request currentUrl) w of
        (None, w') \<Rightarrow> False
      | (Some res, w') \<Rightarrow>
          (res_status res = 302 \<or> res_status res = 303) \<and>
          (case res_location res of
             None \<Rightarrow> False
           | Some location \<Rightarrow>
               location \<noteq> [] \<and>
               (case new_URL E location currentUrl of
                  None \<Rightarrow> False
                | Some u \<Rightarrow> redirects_only E n (url_href u) w')))"


text \<open>
  \<open>named_inputs doc\<close>: the name and value of every input of a form that has a non-empty
  name, in document order; a missing value is the empty string.
\<close>

definition input_pair :: "input_el \<Rightarrow> (string \<times> string) list" where
  "input_pair el =
     (case input_name el of
        None \<Rightarrow> []
      | Some n \<Rightarrow> if n = [] then [] else [(n, case input_value el of None \<Rightarrow> [] | Some v \<Rightarrow> v)])"

definition named_inputs :: "html_doc \<Rightarrow> (string \<times> string) list" where
  "named_inputs doc = concat (map input_pair (concat (map form_inputs (doc_forms doc))))"

text \<open>
  \<open>safe_integer n\<close>: \<open>n\<close> is an integer that a JavaScript number holds exactly
  (\<^verbatim>\<open>Number.isSafeInteger\<close>). On such values, with safe results, the arithmetic of
  JavaScript is the arithmetic of \<open>int\<close>.
\<close>

definition safe_integer :: "int \<Rightarrow> bool" where
  "safe_integer n = (- 9007199254740991 \<le> n \<and> n \<le> 9007199254740991)"

text \<open>
  \<open>no_valid_cache E w\<close>: the condition under which \<^verbatim>\<open>authenticate\<close> does not return
  from the cache.
\<close>

definition no_valid_cache :: "'x env \<Rightarrow> 'x world \<Rightarrow> bool" where
  "no_valid_cache E w =
     (case loadCachedToken w of
        None \<Rightarrow> True
      | Some cached \<Rightarrow> \<not> expiresAt cached > date_now E (outside w))"

text \<open>
  For the proof that the three \<^verbatim>\<open>replace\<close> calls turn base64 into base64url:
  \<open>url_safe\<close> is what the first two do to one character, \<open>padding bs\<close> is the padding
  that base64 puts after the encoding of \<open>bs\<close>.
\<close>

definition url_safe :: "char \<Rightarrow> char" where
  "url_safe c = (if (if c = CHR ''+'' then CHR ''-'' else c) = CHR ''/'' then CHR ''_''
                 else (if c = CHR ''+'' then CHR ''-'' else c))"

fun padding :: "byte list \<Rightarrow> string" where
  "padding [] = []"
| "padding [a] = ''==''"
| "padding [a, b] = ''=''"
| "padding (a # b # c # bs) = padding bs"

text \<open>
  \<open>first_occurrences xs\<close>: \<open>xs\<close> without the repetitions of an element after its first
  occurrence. \<open>plain_keys ks\<close>: no key of \<open>ks\<close> is an array index or the name of a member
  of \<^verbatim>\<open>Object.prototype\<close>.
\<close>

fun first_occurrences :: "'a list \<Rightarrow> 'a list" where
  "first_occurrences [] = []"
| "first_occurrences (x # xs) = x # removeAll x (first_occurrences xs)"

definition plain_keys :: "string list \<Rightarrow> bool" where
  "plain_keys ks = list_all (\<lambda>k. \<not> is_array_index k \<and> k \<notin> set object_prototype_keys) ks"

section \<open>A scripted server\<close>

text \<open>
  A concrete \<open>env\<close> on which the properties are run: the server answers the requests
  with the replies of a script, in order, whatever the request; the clock stands still;
  the libraries are tables on the documents of the script.
\<close>


record script =
  replies :: "response list"
  clock :: int

definition login_html :: string where
  "login_html = ''<form action=/account/login><input name=csrf_token value=abc123><input name=username value><input name=password value></form>''"

definition login_doc :: html_doc where
  "login_doc =
     \<lparr>doc_forms =
        [\<lparr>form_action = Some ''/account/login'',
          form_inputs =
            [\<lparr>input_name = Some ''csrf_token'', input_value = Some ''abc123''\<rparr>,
             \<lparr>input_name = Some ''username'', input_value = Some []\<rparr>,
             \<lparr>input_name = Some ''password'', input_value = Some []\<rparr>]\<rparr>],
      doc_error_message = [], doc_alert_error = [], doc_meta_refresh = None,
      doc_scripts = []\<rparr>"

definition bare_html :: string where
  "bare_html = ''<form><input name=username><input name=password></form>''"

definition bare_doc :: html_doc where
  "bare_doc =
     \<lparr>doc_forms =
        [\<lparr>form_action = None,
          form_inputs =
            [\<lparr>input_name = Some ''username'', input_value = None\<rparr>,
             \<lparr>input_name = Some ''password'', input_value = None\<rparr>]\<rparr>],
      doc_error_message = [], doc_alert_error = [], doc_meta_refresh = None,
      doc_scripts = []\<rparr>"

definition empty_doc :: html_doc where
  "empty_doc =
     \<lparr>doc_forms = [], doc_error_message = [], doc_alert_error = [], doc_meta_refresh = None,
      doc_scripts = []\<rparr>"

definition scripted_query :: "string \<Rightarrow> (string \<times> string) list" where
  "scripted_query u =
     (if u = ''com.tripit://completeAuthorize?code=XYZ&state=2a2a2a2a2a2a2a2a2a2a2a2a2a2a2a2a''
      then [(''code'', ''XYZ''), (''state'', ''2a2a2a2a2a2a2a2a2a2a2a2a2a2a2a2a'')]
      else if u = ''com.tripit://completeAuthorize?code=XYZ&state=2A2a2a2a2a2a2a2a2a2a2a2a2a2a2a2a''
      then [(''code'', ''XYZ''), (''state'', ''2A2a2a2a2a2a2a2a2a2a2a2a2a2a2a2a'')]
      else [])"

definition scripted_env :: "script env" where
  "scripted_env =
     \<lparr>net_fetch = (\<lambda>req s. case replies s of
                               [] \<Rightarrow> (None, s)
                             | r # rs \<Rightarrow> (Some r, s\<lparr>replies := rs\<rparr>)),
      date_now = clock,
      random_bytes = (\<lambda>n s. (replicate n 0x2a, s)),
      sha256 = (\<lambda>s. replicate 32 0xfb),
      cheerio_load = (\<lambda>s. if s = login_html then login_doc
                            else if s = bare_html then bare_doc else empty_doc),
      new_URL = (\<lambda>rel base. if rel = ''http://'' then None
                              else Some \<lparr>url_href = (if take 1 rel = ''/''
                                                       then ''https://www.tripit.com'' @ rel
                                                       else rel),
                                        url_searchParams = scripted_query rel\<rparr>),
      res_json = (\<lambda>s. if s = ''{access_token:tok,expires_in:3600,token_type:Bearer,scope:email}''
                        then Some \<lparr>tr_access_token = Some ''tok'', tr_expires_in = 3600,
                                   tr_token_type = ''Bearer'', tr_scope = ''email''\<rparr>
                        else if s = ''{expires_in:3600,token_type:Bearer,scope:email}''
                        then Some \<lparr>tr_access_token = None, tr_expires_in = 3600,
                                   tr_token_type = ''Bearer'', tr_scope = ''email''\<rparr>
                        else None)\<rparr>"

definition start :: "response list \<Rightarrow> script world" where
  "start rs = \<lparr>outside = \<lparr>replies = rs, clock = 1000000\<rparr>, requests = [], token_cache = Missing\<rparr>"

definition redirect_to :: "nat \<Rightarrow> string \<Rightarrow> response" where
  "redirect_to st loc = \<lparr>res_status = st, res_location = Some loc, res_body = []\<rparr>"

definition page :: "string \<Rightarrow> response" where
  "page html = \<lparr>res_status = 200, res_location = None, res_body = html\<rparr>"


definition user1 :: TripItConfig where
  "user1 = \<lparr>clientId = ''client'', clientSecret = ''secret'', username = ''user1'',
            password = ''pass1''\<rparr>"

definition state0 :: string where
  "state0 = ''2a2a2a2a2a2a2a2a2a2a2a2a2a2a2a2a''"

definition pkce0 :: pkce where
  "pkce0 = \<lparr>codeVerifier = state0 @ state0,
            codeChallenge = code_challenge scripted_env (state0 @ state0),
            state = state0\<rparr>"

definition login_script :: "string \<Rightarrow> response list \<Rightarrow> response list" where
  "login_script target rest =
     page [] # redirect_to 302 ''/account/login'' # page login_html # redirect_to 302 target # rest"

definition good_target :: string where
  "good_target = ''com.tripit://completeAuthorize?code=XYZ&state=2a2a2a2a2a2a2a2a2a2a2a2a2a2a2a2a''"

definition bad_target :: string where
  "bad_target = ''com.tripit://completeAuthorize?code=XYZ&state=2A2a2a2a2a2a2a2a2a2a2a2a2a2a2a2a''"

definition invalid_grant :: response where
  \<open>invalid_grant =
     \<lparr>res_status = 400, res_location = None, res_body = ''{"error":"invalid_grant"}''\<rparr>\<close>

definition token_ok :: response where
  "token_ok =
     \<lparr>res_status = 200, res_location = None,
      res_body = ''{access_token:tok,expires_in:3600,token_type:Bearer,scope:email}''\<rparr>"

definition token_missing :: response where
  "token_missing =
     \<lparr>res_status = 200, res_location = None,
      res_body = ''{expires_in:3600,token_type:Bearer,scope:email}''\<rparr>"

definition after_login :: "response list \<Rightarrow> script world" where
  "after_login rest =
     \<lparr>outside = \<lparr>replies = rest, clock = 1000000\<rparr>,
      requests =
        [home_request,
         login_page_request (authorize_url user1 (state pkce0) (codeChallenge pkce0)),
         login_page_request ''https://www.tripit.com/account/login'',
         login_request user1 login_doc ''https://www.tripit.com/account/login''
           ''https://www.tripit.com/account/login''],
      token_cache = Missing\<rparr>"

definition stored_until :: "int \<Rightarrow> cache_file" where
  "stored_until t =
     Stored \<lparr>access_token = Some ''cached'', expires_in = 3600, token_type = ''Bearer'',
             scope = ''email'', expiresAt = t\<rparr>"

definition fresh_token :: cached_token where
  "fresh_token =
     \<lparr>access_token = Some ''tok'', expires_in = 3600, token_type = ''Bearer'',
      scope = ''email'', expiresAt = 4570000\<rparr>"

definition sample_trip :: "(string \<times> jsval) list" where
  "sample_trip =
     [(''display_name'', Str ''Rome''), (''color'', Str ''red''), (''end_date'', Null),
      (''start_date'', Str ''2026-06-01'')]"

definition sample_object :: "(string \<times> jsval) list" where
  "sample_object =
     [(''uuid'', Str ''u1''), (''color'', Str ''red''), (''display_name'', Str ''Rome'')]"

section \<open>Properties of followRedirects\<close>

declare followRedirects_from.simps [simp del]

lemma do_fetch_requests:
  "do_fetch E req w = (r, w') \<Longrightarrow> requests w' = requests w @ [req]"
  by (auto simp: do_fetch_def split: prod.splits)

lemma do_fetch_cache:
  "do_fetch E req w = (r, w') \<Longrightarrow> token_cache w' = token_cache w"
  by (auto simp: do_fetch_def split: prod.splits)

lemma redirects_only_chase:
  "redirects_only E n url w \<Longrightarrow> i + n = 5 \<Longrightarrow>
   \<exists>w'. followRedirects_from E i url w =
           (Inl (Error ''Too many redirects while getting login form''), w')
       \<and> length (requests w') = length (requests w) + n"
proof (induction n arbitrary: i url w)
  case 0
  then show ?case by (simp add: followRedirects_from.simps)
next
  case (Suc n)
  from Suc.prems(2) have i: "i < 5" by simp
  from Suc.prems(1) obtain res w1 loc u where
    f: "do_fetch E (login_page_request url) w = (Some res, w1)"
    and st: "res_status res = 302 \<or> res_status res = 303"
    and loc: "res_location res = Some loc" "loc \<noteq> []"
    and u: "new_URL E loc url = Some u"
    and rest: "redirects_only E n (url_href u) w1"
    by (auto split: prod.splits option.splits)
  from Suc.prems(2) have "Suc i + n = 5" by simp
  from Suc.IH [OF rest this] obtain w' where
    w': "followRedirects_from E (Suc i) (url_href u) w1 =
           (Inl (Error ''Too many redirects while getting login form''), w')"
        "length (requests w') = length (requests w1) + n"
    by blast
  have "followRedirects_from E i url w = followRedirects_from E (Suc i) (url_href u) w1"
    using i f st loc u by (subst followRedirects_from.simps) auto
  with w' do_fetch_requests [OF f] show ?case by simp
qed

lemma followRedirects_from_bound:
  "length (requests (snd (followRedirects_from E i url w))) \<le> length (requests w) + (5 - i)"
proof (induction E i url w rule: followRedirects_from.induct)
  case (1 E i currentUrl w)
  show ?case
  proof (cases "i < 5")
    case False
    then show ?thesis by (simp add: followRedirects_from.simps)
  next
    case True
    obtain r w1 where f: "do_fetch E (login_page_request currentUrl) w = (r, w1)"
      by (cases "do_fetch E (login_page_request currentUrl) w")
    note len = do_fetch_requests [OF f]
    show ?thesis
    proof (cases r)
      case None
      with True f len show ?thesis by (subst followRedirects_from.simps) simp
    next
      case (Some res)
      show ?thesis
      proof (cases "(res_status res = 302 \<or> res_status res = 303) \<and>
                    (\<exists>loc u. res_location res = Some loc \<and> loc \<noteq> [] \<and> new_URL E loc currentUrl = Some u)")
        case False
        with True f len Some show ?thesis
          by (subst followRedirects_from.simps) (auto simp: Let_def split: option.splits)
      next
        case yes: True
        then obtain loc u where l: "res_location res = Some loc" "loc \<noteq> []" "new_URL E loc currentUrl = Some u"
          by blast
        have "length (requests (snd (followRedirects_from E (Suc i) (url_href u) w1)))
                \<le> length (requests w1) + (5 - Suc i)"
          using "1.IH" [OF True f [symmetric] Some _ l(1) l(2) l(3)] yes by blast
        moreover have "followRedirects_from E i currentUrl w = followRedirects_from E (Suc i) (url_href u) w1"
          using True f Some yes l by (subst followRedirects_from.simps) auto
        ultimately show ?thesis using len True by simp
      qed
    qed
  qed
qed


text \<open>
  C9 (amended). The chase of the login form always ends, after at most five requests; and
  when each of the five responses is a redirect with status 302 or 303 and a location that
  resolves, it ends with the error "Too many redirects while getting login form" after
  exactly five requests. A chain of redirects with another status stops at the first of
  them: the last run below is a chain of 301s.
\<close>

theorem too_many_redirects:
  "length (requests (snd (followRedirects E url w))) \<le> length (requests w) + 5 \<and>
   (redirects_only E 5 url w \<longrightarrow>
      (\<exists>w'. followRedirects E url w =
              (Inl (Error ''Too many redirects while getting login form''), w')
           \<and> length (requests w') = length (requests w) + 5))"
  using followRedirects_from_bound [of E 0 url w] redirects_only_chase [of E 5 url w 0]
  by (simp add: followRedirects_def)

lemmas run_simps = scripted_env_def start_def redirect_to_def page_def do_fetch_def
  login_page_request_def followRedirects_def

theorem too_many_redirects_witness:
  "redirects_only scripted_env 5 ''https://www.tripit.com/a''
     (start [redirect_to 302 ''/b'', redirect_to 303 ''/c'', redirect_to 302 ''/d'',
             redirect_to 302 ''/e'', redirect_to 303 ''/f'', page login_html]) \<and>
   fst (followRedirects scripted_env ''https://www.tripit.com/a''
     (start [redirect_to 302 ''/b'', redirect_to 303 ''/c'', redirect_to 302 ''/d'',
             redirect_to 302 ''/e'', redirect_to 303 ''/f'', page login_html]))
     = Inl (Error ''Too many redirects while getting login form'') \<and>
   length (requests (snd (followRedirects scripted_env ''https://www.tripit.com/a''
     (start [redirect_to 302 ''/b'', redirect_to 303 ''/c'', redirect_to 302 ''/d'',
             redirect_to 302 ''/e'', redirect_to 303 ''/f'', page login_html])))) = 5"
proof -
  let ?w = "start [redirect_to 302 ''/b'', redirect_to 303 ''/c'', redirect_to 302 ''/d'',
             redirect_to 302 ''/e'', redirect_to 303 ''/f'', page login_html]"
  have h: "redirects_only scripted_env 5 ''https://www.tripit.com/a'' ?w"
    by (simp add: run_simps eval_nat_numeral)
  have r: "requests ?w = []" by (simp add: start_def)
  from too_many_redirects [of scripted_env "''https://www.tripit.com/a''" ?w] h r
  show ?thesis by auto
qed

theorem chain_of_301_stops_at_first:
  "res_status (redirect_to 301 ''/b'') = 301 \<and>
   res_location (redirect_to 301 ''/b'') = Some ''/b'' \<and>
   followRedirects scripted_env ''https://www.tripit.com/a''
     (start [redirect_to 301 ''/b'', redirect_to 301 ''/c'', redirect_to 301 ''/d'',
             redirect_to 301 ''/e'', redirect_to 301 ''/f''])
   = (Inl (Error ''Login form not found''),
      \<lparr>outside = \<lparr>replies = [redirect_to 301 ''/c'', redirect_to 301 ''/d'',
                                 redirect_to 301 ''/e'', redirect_to 301 ''/f''],
                      clock = 1000000\<rparr>,
       requests = [login_page_request ''https://www.tripit.com/a''],
       token_cache = Missing\<rparr>)"
  by (simp add: followRedirects_def followRedirects_from.simps [of _ 0] scripted_env_def
      start_def redirect_to_def do_fetch_def empty_doc_def has_form_input_def login_html_def
      bare_html_def)



lemma followRedirects_from_first_request:
  "i < 5 \<Longrightarrow>
   \<exists>rest. requests (snd (followRedirects_from E i url w))
            = requests w @ login_page_request url # rest"
proof (induction E i url w rule: followRedirects_from.induct)
  case (1 E i currentUrl w)
  obtain r w1 where f: "do_fetch E (login_page_request currentUrl) w = (r, w1)"
    by (cases "do_fetch E (login_page_request currentUrl) w")
  note len = do_fetch_requests [OF f]
  show ?case
  proof (cases "\<exists>res loc u. r = Some res \<and> (res_status res = 302 \<or> res_status res = 303) \<and>
                  res_location res = Some loc \<and> loc \<noteq> [] \<and> new_URL E loc currentUrl = Some u")
    case False
    with "1.prems" f len show ?thesis
      by (subst followRedirects_from.simps) (auto simp: Let_def split: option.splits)
  next
    case True
    then obtain res loc u where l: "r = Some res" "res_status res = 302 \<or> res_status res = 303"
      "res_location res = Some loc" "loc \<noteq> []" "new_URL E loc currentUrl = Some u"
      by blast
    have step: "followRedirects_from E i currentUrl w = followRedirects_from E (Suc i) (url_href u) w1"
      using "1.prems" f l by (subst followRedirects_from.simps) auto
    show ?thesis
    proof (cases "Suc i < 5")
      case True
      from "1.IH" [OF "1.prems" f [symmetric] l(1) l(2) l(3) l(4) l(5) True]
      obtain rest where "requests (snd (followRedirects_from E (Suc i) (url_href u) w1))
            = requests w1 @ login_page_request (url_href u) # rest" by blast
      with step len show ?thesis by simp
    next
      case False
      then have "followRedirects_from E (Suc i) (url_href u) w1
        = (Inl (Error ''Too many redirects while getting login form''), w1)"
        by (subst followRedirects_from.simps) simp
      with step len show ?thesis by simp
    qed
  qed
qed


lemma other_status_not_followed:
  assumes "i < 5" and "do_fetch E (login_page_request url) w = (Some res, w1)"
    and "res_status res \<noteq> 302" and "res_status res \<noteq> 303"
  shows "followRedirects_from E i url w =
           (if has_form_input (cheerio_load E (res_body res)) ''username''
               \<and> has_form_input (cheerio_load E (res_body res)) ''password''
            then Inr (res_body res, url) else Inl (Error ''Login form not found''), w1)"
  using assms by (subst followRedirects_from.simps) (auto simp: Let_def)

text \<open>
  C4 (amended). A response with status 302 or 303 and a location that resolves, received
  before the fifth request, is followed: the next request goes to the location resolved
  against the current URL. The other statuses are not followed, 301, 307 and 308
  included (\<open>other_status_not_followed\<close>); the last run below shows it for 301.
\<close>

theorem redirect_302_303_followed:
  assumes "i < 4"
    and "do_fetch E (login_page_request url) w = (Some res, w1)"
    and "res_status res = 302 \<or> res_status res = 303"
    and "res_location res = Some location" and "location \<noteq> []"
    and "new_URL E location url = Some u"
  shows "\<exists>rest. requests (snd (followRedirects_from E i url w))
            = requests w @ login_page_request url # login_page_request (url_href u) # rest"
proof -
  from assms have step: "followRedirects_from E i url w = followRedirects_from E (Suc i) (url_href u) w1"
    by (subst followRedirects_from.simps) auto
  from assms(1) have "Suc i < 5" by simp
  from followRedirects_from_first_request [OF this, of E "url_href u" w1]
  obtain rest where "requests (snd (followRedirects_from E (Suc i) (url_href u) w1))
            = requests w1 @ login_page_request (url_href u) # rest" by blast
  with step do_fetch_requests [OF assms(2)] show ?thesis by simp
qed

theorem redirect_302_303_followed_witness:
  "\<exists>rest. requests (snd (followRedirects_from scripted_env 0 ''https://www.tripit.com/auth''
             (start [redirect_to 303 ''/account/login'', page login_html])))
     = requests (start [redirect_to 303 ''/account/login'', page login_html])
       @ login_page_request ''https://www.tripit.com/auth''
       # login_page_request ''https://www.tripit.com/account/login'' # rest"
  using redirect_302_303_followed [of 0 scripted_env "''https://www.tripit.com/auth''"
      "start [redirect_to 303 ''/account/login'', page login_html]"
      "redirect_to 303 ''/account/login''"
      "\<lparr>outside = \<lparr>replies = [page login_html], clock = 1000000\<rparr>,
        requests = [login_page_request ''https://www.tripit.com/auth''], token_cache = Missing\<rparr>"
      "''/account/login''"
      "\<lparr>url_href = ''https://www.tripit.com/account/login'', url_searchParams = []\<rparr>"]
  by (simp add: run_simps scripted_query_def)

theorem redirect_301_not_followed:
  "res_status (redirect_to 301 ''/account/login'') = 301 \<and>
   res_location (redirect_to 301 ''/account/login'') = Some ''/account/login'' \<and>
   followRedirects scripted_env ''https://www.tripit.com/auth''
     (start [redirect_to 301 ''/account/login'', page login_html])
   = (Inl (Error ''Login form not found''),
      \<lparr>outside = \<lparr>replies = [page login_html], clock = 1000000\<rparr>,
       requests = [login_page_request ''https://www.tripit.com/auth''],
       token_cache = Missing\<rparr>)"
  by (simp add: followRedirects_def followRedirects_from.simps [of _ 0] scripted_env_def start_def redirect_to_def page_def do_fetch_def
      empty_doc_def has_form_input_def login_html_def bare_html_def)

section \<open>Properties of submitLogin\<close>

lemma map_of_replace_at:
  "map_of (map (\<lambda>(k', v'). if k' = k then (k', v) else (k', v')) ps) x
     = (if x = k \<and> k \<in> set (map fst ps) then Some v else map_of ps x)"
proof (induction ps)
  case Nil
  show ?case by simp
next
  case (Cons p ps)
  obtain a b where p: "p = (a, b)" by (cases p)
  show ?case
  proof (cases "a = k")
    case True
    with p Cons show ?thesis by auto
  next
    case False
    with p Cons show ?thesis by (auto simp: image_iff) force
  qed
qed

lemma fst_replace:
  "map fst (map (\<lambda>(k', v'). if k' = k then (k', v) else (k', v')) ps) = map fst ps"
  by (induction ps) auto

lemma map_of_insert_index_at:
  "map_of (insert_index k v ps) x = (if x = k then Some v else map_of ps x)"
  by (induction ps) (auto split: if_splits)

lemma set_insert_index: "set (insert_index k v ps) = insert (k, v) (set ps)"
  by (induction ps) (auto split: if_splits)

lemma distinct_insert_index:
  "k \<notin> set (map fst ps) \<Longrightarrow> distinct (map fst ps) \<Longrightarrow> distinct (map fst (insert_index k v ps))"
  by (induction ps) (auto simp: set_insert_index split: if_splits)

lemma map_of_snoc_at:
  "k \<notin> set (map fst ps) \<Longrightarrow> map_of (ps @ [(k, v)]) x = (if x = k then Some v else map_of ps x)"
  by (induction ps) (auto split: if_splits)

lemma map_of_js_assign_at:
  "map_of (js_assign k v ps) x =
     (if k = ''__proto__'' then map_of ps x else if x = k then Some v else map_of ps x)"
proof (cases "k = ''__proto__''")
  case True
  then show ?thesis by (simp add: js_assign_def)
next
  case np: False
  show ?thesis
  proof (cases "k \<in> set (map fst ps)")
    case True
    with np show ?thesis by (simp only: js_assign_def map_of_replace_at if_True if_False) simp
  next
    case nk: False
    show ?thesis
    proof (cases "is_array_index k")
      case True
      with np nk show ?thesis
        by (simp only: js_assign_def map_of_insert_index_at if_True if_False)
    next
      case False
      with np nk map_of_snoc_at [of k ps v x] show ?thesis
        by (simp add: js_assign_def del: map_of_append)
    qed
  qed
qed

lemma distinct_js_assign:
  "distinct (map fst ps) \<Longrightarrow> distinct (map fst (js_assign k v ps))"
  by (simp add: js_assign_def fst_replace distinct_insert_index del: map_map)

lemma distinct_fold_capture:
  "distinct (map fst acc) \<Longrightarrow> distinct (map fst (fold capture_input els acc))"
  by (induction els arbitrary: acc)
     (auto simp: capture_input_def Let_def distinct_js_assign split: option.splits)


lemma map_of_capture_input:
  "map_of (capture_input el acc) x =
     (if x = ''__proto__'' then map_of acc x
      else case map_of (input_pair el) x of Some v \<Rightarrow> Some v | None \<Rightarrow> map_of acc x)"
  by (auto simp: capture_input_def input_pair_def Let_def map_of_js_assign_at split: option.splits)

lemma rev_input_pair: "rev (input_pair el) = input_pair el"
  by (simp add: input_pair_def split: option.splits)

lemma map_of_fold_capture:
  "map_of (fold capture_input els acc) x =
     (if x = ''__proto__'' then map_of acc x
      else case map_of (rev (concat (map input_pair els))) x of
             Some v \<Rightarrow> Some v
           | None \<Rightarrow> map_of acc x)"
proof (induction els arbitrary: acc)
  case Nil
  show ?case by simp
next
  case (Cons el els)
  show ?case
    by (simp add: Cons.IH map_of_capture_input map_add_def rev_input_pair split: option.splits)
qed

lemma map_of_form_fields:
  "map_of (form_fields doc) x =
     (if x = ''__proto__'' then None else map_of (rev (named_inputs doc)) x)"
  by (simp add: form_fields_def named_inputs_def map_of_fold_capture split: option.splits)

lemma distinct_login_fields: "distinct (map fst (login_fields config doc))"
  by (simp add: login_fields_def form_fields_def distinct_js_assign distinct_fold_capture del: map_map)

lemma map_of_login_fields:
  "map_of (login_fields config doc) x =
     (if x = ''password'' then Some (password config)
      else if x = ''username'' then Some (username config)
      else if x = ''__proto__'' then None
      else map_of (rev (named_inputs doc)) x)"
  by (simp add: login_fields_def map_of_js_assign_at map_of_form_fields)

lemma submitLogin_posts:
  assumes "first_form_action (cheerio_load E formHtml) = Some a" and "a \<noteq> []"
    and "new_URL E a formAction = Some u"
  shows "\<exists>r w'. submitLogin E config formHtml formAction w = (r, w')
           \<and> requests w' = requests w
               @ [login_request config (cheerio_load E formHtml) (url_href u) formAction]"
proof -
  obtain r w1 where f: "do_fetch E (login_request config (cheerio_load E formHtml) (url_href u) formAction) w = (r, w1)"
    by (cases "do_fetch E (login_request config (cheerio_load E formHtml) (url_href u) formAction) w")
  from assms f do_fetch_requests [OF f] show ?thesis
    by (cases r) (simp_all add: submitLogin_def Let_def)
qed

lemma login_doc_fields:
  "login_fields user1 login_doc =
     [(''csrf_token'', ''abc123''), (''username'', ''user1''), (''password'', ''pass1'')]"
  by (simp add: login_fields_def form_fields_def login_doc_def user1_def capture_input_def
      js_assign_def is_array_index_def is_digit_def)

lemma login_doc_body:
  "URLSearchParams_toString (login_fields user1 login_doc)
     = ''csrf_token=abc123&username=user1&password=pass1''"
  by (simp add: login_doc_fields URLSearchParams_toString_def form_urlencode_string_def
      is_alnum_def)

text \<open>
  C5. When the form has an action that resolves, \<^verbatim>\<open>submitLogin\<close> issues one POST whose
  body is the serialisation of \<^verbatim>\<open>submitData\<close>. \<^verbatim>\<open>submitData\<close> has one entry for each
  name: the supplied password and username under \<^verbatim>\<open>password\<close> and \<^verbatim>\<open>username\<close>, and under
  every other name the value of the last input of the document with that name, unchanged
  (no entry when no input has the name; \<^verbatim>\<open>__proto__\<close> never gets one). The run
  below is the form \<^verbatim>\<open>{csrf_token: "abc123", username: "", password: ""}\<close> with
  \<^verbatim>\<open>user1/pass1\<close>.
\<close>

theorem login_fields_resubmitted:
  assumes "first_form_action (cheerio_load E formHtml) = Some a" and "a \<noteq> []"
    and "new_URL E a formAction = Some u"
  shows "\<exists>r w' req. submitLogin E config formHtml formAction w = (r, w')
           \<and> requests w' = requests w @ [req]
           \<and> req_method req = POST
           \<and> req_body req =
               Some (URLSearchParams_toString (login_fields config (cheerio_load E formHtml)))
           \<and> distinct (map fst (login_fields config (cheerio_load E formHtml)))
           \<and> (\<forall>name. map_of (login_fields config (cheerio_load E formHtml)) name =
                 (if name = ''password'' then Some (password config)
                  else if name = ''username'' then Some (username config)
                  else if name = ''__proto__'' then None
                  else map_of (rev (named_inputs (cheerio_load E formHtml))) name))"
proof -
  from submitLogin_posts [OF assms, of config w] obtain r w' where
    "submitLogin E config formHtml formAction w = (r, w')"
    "requests w' = requests w
               @ [login_request config (cheerio_load E formHtml) (url_href u) formAction]"
    by blast
  then show ?thesis
    using distinct_login_fields [of config "cheerio_load E formHtml"]
      map_of_login_fields [of config "cheerio_load E formHtml"]
    by (intro exI [of _ r] exI [of _ w']
          exI [of _ "login_request config (cheerio_load E formHtml) (url_href u) formAction"])
       (simp add: login_request_def)
qed

theorem login_fields_resubmitted_witness:
  "\<exists>r w' req. submitLogin scripted_env user1 login_html ''https://www.tripit.com/account/login''
                 (start [redirect_to 302 ''/done'']) = (r, w')
           \<and> requests w' = [req]
           \<and> req_method req = POST
           \<and> req_body req = Some ''csrf_token=abc123&username=user1&password=pass1''
           \<and> map_of (login_fields user1 login_doc) ''csrf_token'' = Some ''abc123''"
proof -
  have c: "cheerio_load scripted_env login_html = login_doc"
    by (simp add: scripted_env_def)
  have a: "first_form_action (cheerio_load scripted_env login_html) = Some ''/account/login''"
    by (simp add: c first_form_action_def login_doc_def)
  have u: "new_URL scripted_env ''/account/login'' ''https://www.tripit.com/account/login''
     = Some \<lparr>url_href = ''https://www.tripit.com/account/login'', url_searchParams = []\<rparr>"
    by (simp add: scripted_env_def scripted_query_def)
  have n: "''/account/login'' \<noteq> []" by simp
  from login_fields_resubmitted [OF a n u, of user1 "start [redirect_to 302 ''/done'']"]
  obtain r w' req where
    "submitLogin scripted_env user1 login_html ''https://www.tripit.com/account/login''
       (start [redirect_to 302 ''/done'']) = (r, w')"
    "requests w' = requests (start [redirect_to 302 ''/done'']) @ [req]"
    "req_method req = POST"
    "req_body req = Some (URLSearchParams_toString (login_fields user1 login_doc))"
    unfolding c by blast
  then show ?thesis
    by (intro exI [of _ r] exI [of _ w'] exI [of _ req])
       (simp add: login_doc_body [unfolded login_doc_fields] start_def login_doc_fields)
qed

text \<open>
  C7 (amended). The login form is posted to the \<^verbatim>\<open>action\<close> attribute of the first form of
  the page, resolved against the URL of the page. When that form has no \<^verbatim>\<open>action\<close>
  attribute, or an empty one, \<^verbatim>\<open>submitLogin\<close> fails with "No form action URL found" and
  sends nothing: there is no fallback to the URL of the page.
\<close>

theorem form_action_required:
  "(first_form_action (cheerio_load E formHtml) = Some a \<and> a \<noteq> []
      \<and> new_URL E a formAction = Some u \<longrightarrow>
      (\<exists>r w' req. submitLogin E config formHtml formAction w = (r, w')
         \<and> requests w' = requests w @ [req] \<and> req_url req = url_href u)) \<and>
   (first_form_action (cheerio_load E formHtml) = None
      \<or> first_form_action (cheerio_load E formHtml) = Some [] \<longrightarrow>
      submitLogin E config formHtml formAction w = (Inl (Error ''No form action URL found''), w))"
proof (intro conjI impI)
  assume "first_form_action (cheerio_load E formHtml) = Some a \<and> a \<noteq> []
      \<and> new_URL E a formAction = Some u"
  then obtain r w' where
    "submitLogin E config formHtml formAction w = (r, w')"
    "requests w' = requests w
               @ [login_request config (cheerio_load E formHtml) (url_href u) formAction]"
    using submitLogin_posts [of E formHtml a formAction u config w] by blast
  then show "\<exists>r w' req. submitLogin E config formHtml formAction w = (r, w')
         \<and> requests w' = requests w @ [req] \<and> req_url req = url_href u"
    by (intro exI [of _ r] exI [of _ w']
          exI [of _ "login_request config (cheerio_load E formHtml) (url_href u) formAction"])
       (simp add: login_request_def)
next
  assume "first_form_action (cheerio_load E formHtml) = None
      \<or> first_form_action (cheerio_load E formHtml) = Some []"
  then show "submitLogin E config formHtml formAction w
      = (Inl (Error ''No form action URL found''), w)"
    by (auto simp: submitLogin_def Let_def)
qed

theorem form_action_required_witness:
  "(\<exists>r w' req. submitLogin scripted_env user1 login_html
        ''https://www.tripit.com/auth/login?next=1'' (start [redirect_to 302 ''/done''])
        = (r, w')
      \<and> requests w' = requests (start [redirect_to 302 ''/done'']) @ [req]
      \<and> req_url req = ''https://www.tripit.com/account/login'') \<and>
   submitLogin scripted_env user1 bare_html ''https://www.tripit.com/auth/login?next=1''
     (start [redirect_to 302 ''/done''])
     = (Inl (Error ''No form action URL found''), start [redirect_to 302 ''/done''])"
  using form_action_required [of scripted_env login_html "''/account/login''"
      "''https://www.tripit.com/auth/login?next=1''"
      "\<lparr>url_href = ''https://www.tripit.com/account/login'', url_searchParams = []\<rparr>"
      user1 "start [redirect_to 302 ''/done'']"]
    form_action_required [of scripted_env bare_html "''/account/login''"
      "''https://www.tripit.com/auth/login?next=1''"
      "\<lparr>url_href = ''https://www.tripit.com/account/login'', url_searchParams = []\<rparr>"
      user1 "start [redirect_to 302 ''/done'']"]
  by (simp add: scripted_env_def scripted_query_def first_form_action_def login_doc_def
      bare_doc_def login_html_def bare_html_def)

theorem missing_action_fails:
  "first_form_action (cheerio_load scripted_env bare_html) = None \<and>
   submitLogin scripted_env user1 bare_html ''https://www.tripit.com/auth/login?next=1''
     (start [redirect_to 302 ''/done''])
     = (Inl (Error ''No form action URL found''), start [redirect_to 302 ''/done''])"
  by (simp add: submitLogin_def scripted_env_def first_form_action_def bare_doc_def
      login_html_def bare_html_def)

section \<open>Properties of authenticate\<close>

lemma do_fetch_outside_cache:
  "do_fetch E req (w\<lparr>token_cache := c\<rparr>)
     = (fst (do_fetch E req w), (snd (do_fetch E req w))\<lparr>token_cache := c\<rparr>)"
  by (simp add: do_fetch_def split: prod.splits)

lemma followRedirects_from_outside_cache:
  "followRedirects_from E i url (w\<lparr>token_cache := c\<rparr>)
     = (fst (followRedirects_from E i url w),
        (snd (followRedirects_from E i url w))\<lparr>token_cache := c\<rparr>)"
proof (induction "5 - i" arbitrary: i url w)
  case 0
  then show ?case by (simp add: followRedirects_from.simps [of E i])
next
  case (Suc n)
  then have n: "n = 5 - Suc i" and i: "i < 5" by simp_all
  note IH = Suc.hyps(1) [OF n]
  show ?case
    by (simp add: followRedirects_from.simps [of E i] do_fetch_outside_cache IH Let_def
          split: prod.splits option.splits)
qed

lemma followRedirects_from_keeps_cache:
  "token_cache (snd (followRedirects_from E i url w)) = token_cache w"
proof (induction "5 - i" arbitrary: i url w)
  case 0
  then show ?case by (simp add: followRedirects_from.simps [of E i])
next
  case (Suc n)
  then have n: "n = 5 - Suc i" and i: "i < 5" by simp_all
  note IH = Suc.hyps(1) [OF n]
  show ?case
    by (auto simp: followRedirects_from.simps [of E i] IH Let_def
          split: prod.splits option.splits dest: do_fetch_cache)
qed

lemma followRedirects_from_via_cookie_jar:
  "\<exists>new. requests (snd (followRedirects_from E i url w)) = requests w @ new
         \<and> list_all via_cookie_jar new"
proof (induction "5 - i" arbitrary: i url w)
  case 0
  then show ?case by (simp add: followRedirects_from.simps [of E i])
next
  case (Suc n)
  then have n: "n = 5 - Suc i" and i: "i < 5" by simp_all
  note IH = Suc.hyps(1) [OF n]
  obtain r w1 where f: "do_fetch E (login_page_request url) w = (r, w1)"
    by (cases "do_fetch E (login_page_request url) w")
  have w1: "requests w1 = requests w @ [login_page_request url]"
    by (rule do_fetch_requests [OF f])
  have v: "via_cookie_jar (login_page_request url)" by (simp add: login_page_request_def)
  have here: "\<exists>new. requests w1 = requests w @ new \<and> list_all via_cookie_jar new"
    using w1 v by simp
  have there: "\<exists>new. requests (snd (followRedirects_from E (Suc i) u w1)) = requests w @ new
         \<and> list_all via_cookie_jar new" for u
  proof -
    from IH [of u w1] obtain new where
      "requests (snd (followRedirects_from E (Suc i) u w1)) = requests w1 @ new"
      "list_all via_cookie_jar new" by blast
    with w1 v show ?thesis
      by (intro exI [of _ "login_page_request url # new"]) simp
  qed
  show ?case
    using f here there
    by (auto simp: followRedirects_from.simps [of E i] Let_def split: option.splits)
qed

lemma submitLogin_outside_cache:
  "submitLogin E config html formAction (w\<lparr>token_cache := c\<rparr>)
     = (fst (submitLogin E config html formAction w),
        (snd (submitLogin E config html formAction w))\<lparr>token_cache := c\<rparr>)"
  by (simp add: submitLogin_def do_fetch_outside_cache Let_def split: prod.splits option.splits)

lemma submitLogin_keeps_cache:
  "token_cache (snd (submitLogin E config html formAction w)) = token_cache w"
  by (auto simp: submitLogin_def Let_def split: prod.splits option.splits dest: do_fetch_cache)

lemma submitLogin_via_cookie_jar:
  "\<exists>new. requests (snd (submitLogin E config html formAction w)) = requests w @ new
         \<and> list_all via_cookie_jar new"
  by (auto simp: submitLogin_def Let_def login_request_def
           split: prod.splits option.splits dest!: do_fetch_requests)

lemma pkce_setup_outside_cache:
  "pkce_setup E (w\<lparr>token_cache := c\<rparr>)
     = (fst (pkce_setup E w), (snd (pkce_setup E w))\<lparr>token_cache := c\<rparr>)"
  by (simp add: pkce_setup_def split: prod.splits)

lemma pkce_setup_world:
  "token_cache (snd (pkce_setup E w)) = token_cache w"
  "requests (snd (pkce_setup E w)) = requests w"
  by (simp_all add: pkce_setup_def split: prod.splits)

lemma login_flow_outside_cache:
  "login_flow E config (w\<lparr>token_cache := c\<rparr>)
     = (fst (login_flow E config w), (snd (login_flow E config w))\<lparr>token_cache := c\<rparr>)"
  by (simp add: login_flow_def followRedirects_def do_fetch_outside_cache
        pkce_setup_outside_cache followRedirects_from_outside_cache submitLogin_outside_cache
      split: prod.splits option.splits sum.splits)

lemma login_flow_keeps_cache:
  "token_cache (snd (login_flow E config w)) = token_cache w"
proof -
  obtain r w1 where f: "do_fetch E home_request w = (r, w1)"
    by (cases "do_fetch E home_request w")
  obtain p w2 where p: "pkce_setup E w1 = (p, w2)" by (cases "pkce_setup E w1")
  obtain r3 w3 where r3: "followRedirects_from E 0 (authorize_url config (state p) (codeChallenge p)) w2 = (r3, w3)"
    by (cases "followRedirects_from E 0 (authorize_url config (state p) (codeChallenge p)) w2")
  have c1: "token_cache w1 = token_cache w" by (rule do_fetch_cache [OF f])
  have c2: "token_cache w2 = token_cache w1" using pkce_setup_world(1) [of E w1] p by simp
  have c3: "token_cache w3 = token_cache w2"
    using followRedirects_from_keeps_cache
      [of E 0 "authorize_url config (state p) (codeChallenge p)" w2] r3 by simp
  have c4: "token_cache w4 = token_cache w3"
    if "submitLogin E config html formAction w3 = (r4, w4)" for html formAction r4 w4
    using submitLogin_keeps_cache [of E config html formAction w3] that by simp
  show ?thesis
    using f p r3 c1 c2 c3
    by (auto simp: login_flow_def followRedirects_def split: prod.splits option.splits sum.splits
          dest: c4)
qed

lemma login_flow_requests:
  "\<exists>new. requests (snd (login_flow E config w)) = requests w @ home_request # new
         \<and> list_all via_cookie_jar new"
proof -
  obtain r w1 where f: "do_fetch E home_request w = (r, w1)"
    by (cases "do_fetch E home_request w")
  obtain p w2 where p: "pkce_setup E w1 = (p, w2)" by (cases "pkce_setup E w1")
  obtain r3 w3 where r3: "followRedirects_from E 0 (authorize_url config (state p) (codeChallenge p)) w2 = (r3, w3)"
    by (cases "followRedirects_from E 0 (authorize_url config (state p) (codeChallenge p)) w2")
  have q1: "requests w1 = requests w @ [home_request]" by (rule do_fetch_requests [OF f])
  have q2: "requests w2 = requests w1" using pkce_setup_world(2) [of E w1] p by simp
  obtain n3 where q3: "requests w3 = requests w2 @ n3" "list_all via_cookie_jar n3"
    using followRedirects_from_via_cookie_jar
      [of E 0 "authorize_url config (state p) (codeChallenge p)" w2] r3 by auto
  have q4: "\<exists>new. requests (snd (submitLogin E config html formAction w3)) = requests w @ home_request # new
         \<and> list_all via_cookie_jar new" for html formAction
  proof -
    obtain n4 where "requests (snd (submitLogin E config html formAction w3)) = requests w3 @ n4"
      "list_all via_cookie_jar n4"
      using submitLogin_via_cookie_jar [of E config html formAction w3] by blast
    with q1 q2 q3 show ?thesis by (intro exI [of _ "n3 @ n4"]) simp
  qed
  have q3': "\<exists>new. requests w3 = requests w @ home_request # new \<and> list_all via_cookie_jar new"
    using q1 q2 q3 by simp
  show ?thesis
  proof (cases r)
    case None
    with f q1 show ?thesis by (simp add: login_flow_def)
  next
    case (Some res)
    show ?thesis
    proof (cases r3)
      case (Inl e)
      with Some f p r3 q3' show ?thesis
        by (simp add: login_flow_def followRedirects_def)
    next
      case (Inr hf)
      obtain html formAction where hf: "hf = (html, formAction)" by (cases hf)
      obtain r4 w4 where r4: "submitLogin E config html formAction w3 = (r4, w4)"
        by (cases "submitLogin E config html formAction w3")
      with q4 [of html formAction] have "\<exists>new. requests w4 = requests w @ home_request # new
         \<and> list_all via_cookie_jar new" by simp
      with Some f p r3 Inr hf r4 show ?thesis
        by (cases r4) (simp_all add: login_flow_def followRedirects_def)
    qed
  qed
qed

lemma authenticate_full_flow:
  "no_valid_cache E w \<Longrightarrow>
   authenticate E config w =
     (case login_flow E config w of
        (Inl e, w') \<Rightarrow> (Inl e, w')
      | (Inr (p, redirectUrl), w') \<Rightarrow> complete_authorize E config p redirectUrl w')"
  by (cases "loadCachedToken w") (simp_all add: authenticate_def no_valid_cache_def)

lemma exchangeCodeForToken_outside_cache:
  "exchangeCodeForToken E config code cv (w\<lparr>token_cache := c\<rparr>)
     = (fst (exchangeCodeForToken E config code cv w),
        (snd (exchangeCodeForToken E config code cv w))\<lparr>token_cache := c\<rparr>)"
proof -
  obtain r w1 where f: "do_fetch E (token_request config code cv) w = (r, w1)"
    by (cases "do_fetch E (token_request config code cv) w")
  then have "do_fetch E (token_request config code cv) (w\<lparr>token_cache := c\<rparr>)
     = (r, w1\<lparr>token_cache := c\<rparr>)"
    by (simp add: do_fetch_outside_cache)
  with f show ?thesis
    by (cases r) (simp_all add: exchangeCodeForToken_def split: option.splits)
qed

lemma exchangeCodeForToken_world:
  assumes "exchangeCodeForToken E config code cv w = (r, w')"
  shows "token_cache w' = token_cache w"
    and "requests w' = requests w @ [token_request config code cv]"
proof -
  obtain r1 w1 where f: "do_fetch E (token_request config code cv) w = (r1, w1)"
    by (cases "do_fetch E (token_request config code cv) w")
  have "w' = w1"
    using assms f by (cases r1) (auto simp: exchangeCodeForToken_def split: option.splits if_splits)
  with do_fetch_cache [OF f] do_fetch_requests [OF f]
  show "token_cache w' = token_cache w"
    and "requests w' = requests w @ [token_request config code cv]" by simp_all
qed

lemma cacheToken_outside_cache:
  "cacheToken E tr (w\<lparr>token_cache := c\<rparr>) = cacheToken E tr w"
  by (simp add: cacheToken_def)

lemma exchange_and_cache_outside_cache:
  "exchange_and_cache E config p code (w\<lparr>token_cache := c\<rparr>) =
     (case exchange_and_cache E config p code w of
        (Inl e, w') \<Rightarrow> (Inl e, w'\<lparr>token_cache := c\<rparr>)
      | (Inr t, w') \<Rightarrow> (Inr t, w'))"
proof -
  obtain r w1 where f: "exchangeCodeForToken E config code (codeVerifier p) w = (r, w1)"
    by (cases "exchangeCodeForToken E config code (codeVerifier p) w")
  then have g: "exchangeCodeForToken E config code (codeVerifier p) (w\<lparr>token_cache := c\<rparr>)
     = (r, w1\<lparr>token_cache := c\<rparr>)"
    by (simp add: exchangeCodeForToken_outside_cache)
  show ?thesis
    unfolding exchange_and_cache_def f g by (cases r) (simp_all add: cacheToken_outside_cache)
qed

lemma exchange_and_cache_world:
  assumes "exchange_and_cache E config p code w = (r, w')"
  shows "requests w' = requests w @ [token_request config code (codeVerifier p)]"
    and "\<And>e. r = Inl e \<Longrightarrow> token_cache w' = token_cache w"
proof -
  obtain r1 w1 where f: "exchangeCodeForToken E config code (codeVerifier p) w = (r1, w1)"
    by (cases "exchangeCodeForToken E config code (codeVerifier p) w")
  note w1 = exchangeCodeForToken_world [OF f]
  from assms show "requests w' = requests w @ [token_request config code (codeVerifier p)]"
    unfolding exchange_and_cache_def f using w1
    by (cases r1) (auto simp: cacheToken_def split: if_splits)
  fix e assume "r = Inl e"
  with assms show "token_cache w' = token_cache w"
    unfolding exchange_and_cache_def f using w1
    by (cases r1) (auto split: if_splits)
qed

lemma complete_authorize_outside_cache:
  "complete_authorize E config p redirectUrl (w\<lparr>token_cache := c\<rparr>) =
     (case complete_authorize E config p redirectUrl w of
        (Inl e, w') \<Rightarrow> (Inl e, w'\<lparr>token_cache := c\<rparr>)
      | (Inr t, w') \<Rightarrow> (Inr t, w'))"
  by (simp add: complete_authorize_def exchange_and_cache_outside_cache split: option.splits)

lemma complete_authorize_world:
  assumes "complete_authorize E config p redirectUrl w = (r, w')"
  shows "\<exists>more. requests w' = requests w @ more"
    and "\<And>e. r = Inl e \<Longrightarrow> token_cache w' = token_cache w"
proof -
  from assms show "\<exists>more. requests w' = requests w @ more"
    by (auto simp: complete_authorize_def split: option.splits if_splits
          dest: exchange_and_cache_world(1))
  fix e assume "r = Inl e"
  with assms show "token_cache w' = token_cache w"
    by (auto simp: complete_authorize_def split: option.splits if_splits
          dest: exchange_and_cache_world(2))
qed

lemma authenticate_failure_keeps_cache:
  assumes "authenticate E config w = (Inl e, w')"
  shows "token_cache w' = token_cache w"
proof (cases "no_valid_cache E w")
  case False
  with assms show ?thesis
    by (cases "loadCachedToken w") (auto simp: authenticate_def no_valid_cache_def split: if_splits)
next
  case True
  obtain r w1 where l: "login_flow E config w = (r, w1)" by (cases "login_flow E config w")
  have c1: "token_cache w1 = token_cache w"
    using login_flow_keeps_cache [of E config w] l by simp
  show ?thesis
  proof (cases r)
    case (Inl e1)
    with assms l c1 True show ?thesis by (simp add: authenticate_full_flow)
  next
    case (Inr pr)
    obtain p u where "pr = (p, u)" by (cases pr)
    with assms l Inr True have "complete_authorize E config p u w1 = (Inl e, w')"
      by (simp add: authenticate_full_flow)
    from complete_authorize_world(2) [OF this] c1 show ?thesis by simp
  qed
qed

lemma no_valid_cache_Missing: "no_valid_cache E (w\<lparr>token_cache := Missing\<rparr>)"
  by (simp add: no_valid_cache_def loadCachedToken_def)

lemma authenticate_outside_cache:
  assumes "no_valid_cache E w"
  shows "authenticate E config w =
        (case authenticate E config (w\<lparr>token_cache := Missing\<rparr>) of
           (Inl e, w') \<Rightarrow> (Inl e, w'\<lparr>token_cache := token_cache w\<rparr>)
         | (Inr t, w') \<Rightarrow> (Inr t, w'))"
proof -
  let ?m = "w\<lparr>token_cache := Missing\<rparr>"
  obtain r w1 where l: "login_flow E config ?m = (r, w1)" by (cases "login_flow E config ?m")
  have w: "w = ?m\<lparr>token_cache := token_cache w\<rparr>" by simp
  have "login_flow E config (?m\<lparr>token_cache := token_cache w\<rparr>)
          = (r, w1\<lparr>token_cache := token_cache w\<rparr>)"
    using l by (simp only: login_flow_outside_cache fst_conv snd_conv)
  then have l': "login_flow E config w = (r, w1\<lparr>token_cache := token_cache w\<rparr>)"
    by simp
  show ?thesis
  proof (cases r)
    case (Inl e)
    with l l' assms show ?thesis
      by (simp add: authenticate_full_flow no_valid_cache_Missing)
  next
    case (Inr pr)
    obtain p u where "pr = (p, u)" by (cases pr)
    with Inr l l' assms show ?thesis
      by (simp add: authenticate_full_flow no_valid_cache_Missing
            complete_authorize_outside_cache)
  qed
qed

lemma authenticate_starts_at_home:
  assumes "no_valid_cache E w"
  shows "\<exists>new. requests (snd (authenticate E config w)) = requests w @ home_request # new"
proof -
  obtain r w1 where l: "login_flow E config w = (r, w1)" by (cases "login_flow E config w")
  obtain new where n: "requests w1 = requests w @ home_request # new"
    using login_flow_requests [of E config w] l by auto
  show ?thesis
  proof (cases r)
    case (Inl e)
    with assms l n show ?thesis by (simp add: authenticate_full_flow)
  next
    case (Inr pr)
    obtain p u where pr: "pr = (p, u)" by (cases pr)
    obtain r2 w2 where c: "complete_authorize E config p u w1 = (r2, w2)"
      by (cases "complete_authorize E config p u w1")
    from complete_authorize_world(1) [OF c] obtain more where
      "requests w2 = requests w1 @ more" by blast
    with assms l n Inr pr c show ?thesis by (simp add: authenticate_full_flow)
  qed
qed

text \<open>
  C2. With a cached token whose \<open>expiresAt\<close> is greater than the current time,
  \<^verbatim>\<open>authenticate\<close> returns the cached \<open>access_token\<close> and leaves the world as it is: no
  request is issued. Otherwise (no file, a corrupt file, or \<open>expiresAt\<close> at or below the
  current time) it runs the login flow exactly as it does without a cache file, starting
  with the request of the home page; only a failed run differs, in that the old file is
  still there afterwards.
\<close>

theorem cache_fast_path:
  "(loadCachedToken w = Some cached \<and> expiresAt cached > date_now E (outside w) \<longrightarrow>
      authenticate E config w = (Inr (access_token cached), w)) \<and>
   (no_valid_cache E w \<longrightarrow>
      authenticate E config w =
        (case authenticate E config (w\<lparr>token_cache := Missing\<rparr>) of
           (Inl e, w') \<Rightarrow> (Inl e, w'\<lparr>token_cache := token_cache w\<rparr>)
         | (Inr t, w') \<Rightarrow> (Inr t, w')) \<and>
      (\<exists>new. requests (snd (authenticate E config w)) = requests w @ home_request # new))"
  using authenticate_outside_cache [of E w config] authenticate_starts_at_home [of E w config]
  by (simp add: authenticate_def)

text \<open>
  C1. When the login flow has produced a redirect URL whose \<^verbatim>\<open>state\<close> parameter is not
  the state generated for this attempt (another string, or no parameter at all),
  \<^verbatim>\<open>authenticate\<close> fails with "OAuth state mismatch", and every request of the attempt
  went through the cookie jar: the request to the token endpoint is not among them.
\<close>

theorem state_mismatch_fails_closed:
  assumes "no_valid_cache E w"
    and "login_flow E config w = (Inr (p, redirectUrl), w')"
    and "new_URL E redirectUrl ''http://localhost'' = Some parsedUrl"
    and "searchParams_get (url_searchParams parsedUrl) ''state'' \<noteq> Some (state p)"
  shows "authenticate E config w = (Inl (Error ''OAuth state mismatch''), w') \<and>
         (\<exists>new. requests w' = requests w @ new \<and> list_all via_cookie_jar new
            \<and> (\<forall>code cv. token_request config code cv \<notin> set new))"
proof -
  have a: "authenticate E config w = (Inl (Error ''OAuth state mismatch''), w')"
    using assms by (simp add: authenticate_full_flow complete_authorize_def)
  obtain new where n: "requests w' = requests w @ home_request # new" "list_all via_cookie_jar new"
    using login_flow_requests [of E config w] assms(2) by auto
  have "list_all via_cookie_jar (home_request # new)"
    using n(2) by (simp add: home_request_def)
  moreover have "token_request config code cv \<notin> set (home_request # new)" for code cv
  proof
    assume "token_request config code cv \<in> set (home_request # new)"
    with \<open>list_all via_cookie_jar (home_request # new)\<close>
    have "via_cookie_jar (token_request config code cv)"
      unfolding list_all_iff by blast
    then show False by (simp add: token_request_def)
  qed
  ultimately show ?thesis using a n(1) by blast
qed

text \<open>
  C6. When the token endpoint answers with a status outside 200..299, \<^verbatim>\<open>authenticate\<close>
  fails with "Token exchange failed (status): body"; when it answers inside 200..299 with
  a body that has no (or an empty) \<^verbatim>\<open>access_token\<close>, it fails with
  "No access_token in response". In both cases the cache file is what it was.
\<close>

theorem token_exchange_failure_not_cached:
  assumes "no_valid_cache E w"
    and "login_flow E config w = (Inr (p, redirectUrl), w1)"
    and "new_URL E redirectUrl ''http://localhost'' = Some parsedUrl"
    and "searchParams_get (url_searchParams parsedUrl) ''state'' = Some (state p)"
    and "searchParams_get (url_searchParams parsedUrl) ''code'' = Some code" and "code \<noteq> []"
    and "do_fetch E (token_request config code (codeVerifier p)) w1 = (Some res, w2)"
  shows "(\<not> res_ok res \<longrightarrow>
            authenticate E config w =
              (Inl (Error (''Token exchange failed ('' @ string_of_nat (res_status res) @ ''): ''
                           @ res_body res)), w2)
            \<and> token_cache w2 = token_cache w) \<and>
         (res_ok res \<and> res_json E (res_body res) = Some tokenResponse
            \<and> (tr_access_token tokenResponse = None \<or> tr_access_token tokenResponse = Some [])
          \<longrightarrow> authenticate E config w = (Inl (Error ''No access_token in response''), w2)
              \<and> token_cache w2 = token_cache w)"
proof -
  have c: "token_cache w2 = token_cache w"
    using login_flow_keeps_cache [of E config w] assms(2) do_fetch_cache [OF assms(7)] by simp
  have a: "authenticate E config w = exchange_and_cache E config p code w1"
    using assms(1-6) by (simp add: authenticate_full_flow complete_authorize_def)
  show ?thesis
    using c assms(7)
    by (auto simp: a exchange_and_cache_def exchangeCodeForToken_def)
qed

lemma exchange_and_cache_success:
  assumes "exchange_and_cache E config p code w = (Inr t, w')"
  shows "\<exists>tokenResponse w2. w' = cacheToken E tokenResponse w2 \<and> t = tr_access_token tokenResponse"
proof -
  obtain r1 w1 where f: "exchangeCodeForToken E config code (codeVerifier p) w = (r1, w1)"
    by (cases "exchangeCodeForToken E config code (codeVerifier p) w")
  from assms show ?thesis
    unfolding exchange_and_cache_def f by (cases r1) (auto split: if_splits)
qed

lemma authenticate_success:
  assumes "no_valid_cache E w" and "authenticate E config w = (Inr t, w')"
  shows "\<exists>tokenResponse w2. w' = cacheToken E tokenResponse w2 \<and> t = tr_access_token tokenResponse"
proof -
  obtain r w1 where l: "login_flow E config w = (r, w1)" by (cases "login_flow E config w")
  show ?thesis
  proof (cases r)
    case (Inl e)
    with assms l show ?thesis by (simp add: authenticate_full_flow)
  next
    case (Inr pr)
    obtain p u where "pr = (p, u)" by (cases pr)
    with assms l Inr have "complete_authorize E config p u w1 = (Inr t, w')"
      by (simp add: authenticate_full_flow)
    then obtain code where "exchange_and_cache E config p code w1 = (Inr t, w')"
      by (auto simp: complete_authorize_def split: option.splits if_splits)
    then show ?thesis by (rule exchange_and_cache_success)
  qed
qed

text \<open>
  C8. For a token response whose \<^verbatim>\<open>expires_in\<close> is a number, when the current time,
  \<open>expires_in\<close> and the values computed from them are safe integers, \<^verbatim>\<open>cacheToken\<close>
  stores \<open>expiresAt = now + (expires_in - 30) * 1000\<close>, which is 30000 milliseconds before
  \<open>now + expires_in * 1000\<close>; and the file that a successful login leaves behind holds the
  returned token with that \<open>expiresAt\<close>.
\<close>

theorem cached_expiry_margin:
  "(safe_integer (date_now E (outside w)) \<and> safe_integer (tr_expires_in tokenResponse)
      \<and> safe_integer (tr_expires_in tokenResponse - 30)
      \<and> safe_integer ((tr_expires_in tokenResponse - 30) * 1000)
      \<and> safe_integer (date_now E (outside w) + (tr_expires_in tokenResponse - 30) * 1000) \<longrightarrow>
      (\<exists>c. token_cache (cacheToken E tokenResponse w) = Stored c
         \<and> expiresAt c = date_now E (outside w) + (tr_expires_in tokenResponse - 30) * 1000
         \<and> expiresAt c = date_now E (outside w) + tr_expires_in tokenResponse * 1000 - 30000
         \<and> expires_in c = tr_expires_in tokenResponse
         \<and> access_token c = tr_access_token tokenResponse)) \<and>
   (no_valid_cache E w \<and> authenticate E config w = (Inr t, w') \<longrightarrow>
      (\<exists>c. token_cache w' = Stored c \<and> access_token c = t
         \<and> (safe_integer (date_now E (outside w')) \<and> safe_integer (expires_in c)
              \<and> safe_integer (expires_in c - 30)
              \<and> safe_integer ((expires_in c - 30) * 1000)
              \<and> safe_integer (date_now E (outside w') + (expires_in c - 30) * 1000) \<longrightarrow>
              expiresAt c = date_now E (outside w') + (expires_in c - 30) * 1000)))"
proof (intro conjI impI)
  show "\<exists>c. token_cache (cacheToken E tokenResponse w) = Stored c
       \<and> expiresAt c = date_now E (outside w) + (tr_expires_in tokenResponse - 30) * 1000
       \<and> expiresAt c = date_now E (outside w) + tr_expires_in tokenResponse * 1000 - 30000
       \<and> expires_in c = tr_expires_in tokenResponse
       \<and> access_token c = tr_access_token tokenResponse"
    by (simp add: cacheToken_def algebra_simps)
next
  assume "no_valid_cache E w \<and> authenticate E config w = (Inr t, w')"
  then obtain tr w2 where "w' = cacheToken E tr w2" "t = tr_access_token tr"
    using authenticate_success [of E w config t w'] by blast
  then show "\<exists>c. token_cache w' = Stored c \<and> access_token c = t
         \<and> (safe_integer (date_now E (outside w')) \<and> safe_integer (expires_in c)
              \<and> safe_integer (expires_in c - 30)
              \<and> safe_integer ((expires_in c - 30) * 1000)
              \<and> safe_integer (date_now E (outside w') + (expires_in c - 30) * 1000) \<longrightarrow>
              expiresAt c = date_now E (outside w') + (expires_in c - 30) * 1000)"
    by (simp add: cacheToken_def)
qed

lemma hex_2a: "hex_lower 0x2a = ''2a''"
  by (simp add: hex_lower_def)

lemma to_hex_16: "to_hex (replicate 16 0x2a) = state0"
  by (simp add: to_hex_def hex_2a state0_def eval_nat_numeral)

lemma to_hex_32: "to_hex (replicate 32 0x2a) = state0 @ state0"
  by (simp add: to_hex_def hex_2a state0_def eval_nat_numeral)

lemma scripted_pkce:
  "pkce_setup scripted_env w = (pkce0, w)"
  by (simp add: pkce_setup_def pkce0_def to_hex_16 to_hex_32) (simp add: scripted_env_def to_hex_16 to_hex_32)

lemma scripted_fetch:
  "do_fetch scripted_env req
     \<lparr>outside = \<lparr>replies = r # rs, clock = t\<rparr>, requests = q, token_cache = c\<rparr>
   = (Some r, \<lparr>outside = \<lparr>replies = rs, clock = t\<rparr>, requests = q @ [req], token_cache = c\<rparr>)"
  by (simp add: do_fetch_def scripted_env_def)

lemma scripted_parse: "cheerio_load scripted_env login_html = login_doc"
  by (simp add: scripted_env_def)

lemma scripted_resolve:
  "new_URL scripted_env ''/account/login'' base
     = Some \<lparr>url_href = ''https://www.tripit.com/account/login'', url_searchParams = []\<rparr>"
  by (simp add: scripted_env_def scripted_query_def)

lemma login_doc_action: "first_form_action login_doc = Some ''/account/login''"
  by (simp add: first_form_action_def login_doc_def)

lemma login_doc_inputs:
  "has_form_input login_doc ''username''" "has_form_input login_doc ''password''"
  by (simp_all add: has_form_input_def login_doc_def)

lemma scripted_login_flow:
  assumes "target \<noteq> []"
  shows "login_flow scripted_env user1 (start (login_script target rest))
     = (Inr (pkce0, target),
        \<lparr>outside = \<lparr>replies = rest, clock = 1000000\<rparr>,
         requests =
           [home_request,
            login_page_request (authorize_url user1 (state pkce0) (codeChallenge pkce0)),
            login_page_request ''https://www.tripit.com/account/login'',
            login_request user1 login_doc ''https://www.tripit.com/account/login''
              ''https://www.tripit.com/account/login''],
         token_cache = Missing\<rparr>)"
proof -
  let ?w1 = "\<lparr>outside = \<lparr>replies = redirect_to 302 ''/account/login'' # page login_html # redirect_to 302 target # rest, clock = 1000000\<rparr>,
              requests = [home_request], token_cache = Missing\<rparr>"
  let ?w3 = "\<lparr>outside = \<lparr>replies = redirect_to 302 target # rest, clock = 1000000\<rparr>,
         requests =
           [home_request,
            login_page_request (authorize_url user1 (state pkce0) (codeChallenge pkce0)),
            login_page_request ''https://www.tripit.com/account/login''],
         token_cache = Missing\<rparr>"
  have 1: "do_fetch scripted_env home_request (start (login_script target rest)) = (Some (page []), ?w1)"
    by (simp add: start_def login_script_def scripted_fetch)
  have 2: "followRedirects scripted_env (authorize_url user1 (state pkce0) (codeChallenge pkce0)) ?w1
      = (Inr (login_html, ''https://www.tripit.com/account/login''), ?w3)"
    by (simp add: followRedirects_def followRedirects_from.simps [of _ 0]
          followRedirects_from.simps [of _ "Suc 0"] scripted_fetch scripted_parse
          scripted_resolve login_doc_inputs redirect_to_def page_def)
  have 3: "submitLogin scripted_env user1 login_html ''https://www.tripit.com/account/login'' ?w3
      = (Inr target, \<lparr>outside = \<lparr>replies = rest, clock = 1000000\<rparr>,
         requests =
           [home_request,
            login_page_request (authorize_url user1 (state pkce0) (codeChallenge pkce0)),
            login_page_request ''https://www.tripit.com/account/login'',
            login_request user1 login_doc ''https://www.tripit.com/account/login''
              ''https://www.tripit.com/account/login''],
         token_cache = Missing\<rparr>)"
    using assms
    by (simp add: submitLogin_def scripted_fetch scripted_parse scripted_resolve
          login_doc_action login_response_target_def redirect_to_def)
  show ?thesis
    by (simp add: login_flow_def 1 scripted_pkce 2 3)
qed

declare string_of_nat.simps [simp del]

lemma string_of_400: "string_of_nat 400 = ''400''"
  by (simp add: string_of_nat.simps [of 400] string_of_nat.simps [of 40]
        string_of_nat.simps [of 4] digit_char_def)

lemma start_no_valid_cache: "no_valid_cache scripted_env (start rs)"
  by (simp add: no_valid_cache_def loadCachedToken_def start_def)

lemma scripted_good_url:
  "new_URL scripted_env good_target ''http://localhost''
     = Some \<lparr>url_href = good_target,
             url_searchParams = [(''code'', ''XYZ''), (''state'', state0)]\<rparr>"
  by (simp add: scripted_env_def scripted_query_def good_target_def state0_def)

lemma scripted_bad_url:
  "new_URL scripted_env bad_target ''http://localhost''
     = Some \<lparr>url_href = bad_target,
             url_searchParams = [(''code'', ''XYZ''), (''state'', ''2A2a2a2a2a2a2a2a2a2a2a2a2a2a2a2a'')]\<rparr>"
  by (simp add: scripted_env_def scripted_query_def bad_target_def)

theorem state_mismatch_fails_closed_witness:
  "authenticate scripted_env user1 (start (login_script bad_target [token_ok]))
     = (Inl (Error ''OAuth state mismatch''),
        \<lparr>outside = \<lparr>replies = [token_ok], clock = 1000000\<rparr>,
         requests =
           [home_request,
            login_page_request (authorize_url user1 (state pkce0) (codeChallenge pkce0)),
            login_page_request ''https://www.tripit.com/account/login'',
            login_request user1 login_doc ''https://www.tripit.com/account/login''
              ''https://www.tripit.com/account/login''],
         token_cache = Missing\<rparr>)"
proof -
  have t: "bad_target \<noteq> []" by (simp add: bad_target_def)
  have n: "searchParams_get (url_searchParams
             \<lparr>url_href = bad_target,
              url_searchParams = [(''code'', ''XYZ''), (''state'', ''2A2a2a2a2a2a2a2a2a2a2a2a2a2a2a2a'')]\<rparr>)
             ''state'' \<noteq> Some (state pkce0)"
    by (simp add: searchParams_get_def pkce0_def state0_def)
  from state_mismatch_fails_closed [OF start_no_valid_cache scripted_login_flow [OF t]
      scripted_bad_url n]
  show ?thesis by simp
qed

lemma scripted_good_login:
  "login_flow scripted_env user1 (start (login_script good_target rest))
     = (Inr (pkce0, good_target), after_login rest)"
  unfolding after_login_def
  by (rule scripted_login_flow) (simp add: good_target_def)

lemma good_state:
  "searchParams_get (url_searchParams
      \<lparr>url_href = good_target, url_searchParams = [(''code'', ''XYZ''), (''state'', state0)]\<rparr>)
      ''state'' = Some (state pkce0)"
  by (simp add: searchParams_get_def pkce0_def)

lemma good_code:
  "searchParams_get (url_searchParams
      \<lparr>url_href = good_target, url_searchParams = [(''code'', ''XYZ''), (''state'', state0)]\<rparr>)
      ''code'' = Some ''XYZ''"
  by (simp add: searchParams_get_def)

lemma good_params:
  "searchParams_get [(''code'', ''XYZ''), (''state'', state0)] ''state'' = Some (state pkce0)"
  "searchParams_get [(''code'', ''XYZ''), (''state'', state0)] ''code'' = Some ''XYZ''"
  by (simp_all add: searchParams_get_def pkce0_def)

lemma scripted_token_fetch:
  "do_fetch scripted_env (token_request user1 ''XYZ'' (codeVerifier pkce0)) (after_login [r])
     = (Some r, (after_login [])\<lparr>requests := requests (after_login [])
                                       @ [token_request user1 ''XYZ'' (codeVerifier pkce0)]\<rparr>)"
  by (simp add: after_login_def scripted_fetch)

theorem token_exchange_failure_not_cached_witness:
  \<open>authenticate scripted_env user1 (start (login_script good_target [invalid_grant]))
     = (Inl (Error ''Token exchange failed (400): {"error":"invalid_grant"}''),
        (after_login [])\<lparr>requests := requests (after_login [])
                           @ [token_request user1 ''XYZ'' (codeVerifier pkce0)]\<rparr>) \<and>
   authenticate scripted_env user1 (start (login_script good_target [token_missing]))
     = (Inl (Error ''No access_token in response''),
        (after_login [])\<lparr>requests := requests (after_login [])
                           @ [token_request user1 ''XYZ'' (codeVerifier pkce0)]\<rparr>) \<and>
   token_cache (after_login []) = Missing\<close>
proof -
  have x: "''XYZ'' \<noteq> []" by simp
  note a = token_exchange_failure_not_cached [OF start_no_valid_cache scripted_good_login
      scripted_good_url good_state good_code x scripted_token_fetch,
      of _ "\<lparr>tr_access_token = None, tr_expires_in = 3600,
               tr_token_type = ''Bearer'', tr_scope = ''email''\<rparr>"]
  have j: "res_json scripted_env (res_body token_missing)
      = Some \<lparr>tr_access_token = None, tr_expires_in = 3600,
               tr_token_type = ''Bearer'', tr_scope = ''email''\<rparr>"
    by (simp add: scripted_env_def token_missing_def)
  from a [of invalid_grant] a [of token_missing] j
  show ?thesis
    by (simp add: res_ok_def invalid_grant_def token_missing_def string_of_400 after_login_def)
qed

lemma scripted_authenticate_ok:
  "authenticate scripted_env user1 (start (login_script good_target [token_ok]))
     = (Inr (Some ''tok''),
        (after_login [])\<lparr>requests := requests (after_login [])
                           @ [token_request user1 ''XYZ'' (codeVerifier pkce0)],
                         token_cache := Stored fresh_token\<rparr>)"
  by (simp add: authenticate_full_flow start_no_valid_cache scripted_good_login
        complete_authorize_def scripted_good_url good_params exchange_and_cache_def
        exchangeCodeForToken_def scripted_token_fetch)
     (simp add: token_ok_def res_ok_def scripted_env_def cacheToken_def after_login_def
        fresh_token_def)

theorem cache_fast_path_witness:
  "authenticate scripted_env user1
     ((start (login_script good_target [token_ok]))\<lparr>token_cache := stored_until 1000001\<rparr>)
     = (Inr (Some ''cached''),
        (start (login_script good_target [token_ok]))\<lparr>token_cache := stored_until 1000001\<rparr>) \<and>
   authenticate scripted_env user1
     ((start (login_script good_target [token_ok]))\<lparr>token_cache := stored_until 1000000\<rparr>)
     = (Inr (Some ''tok''),
        (after_login [])\<lparr>requests := requests (after_login [])
                           @ [token_request user1 ''XYZ'' (codeVerifier pkce0)],
                         token_cache := Stored fresh_token\<rparr>)"
proof -
  let ?w = "start (login_script good_target [token_ok])"
  have m: "?w\<lparr>token_cache := stored_until 1000000, token_cache := Missing\<rparr> = ?w"
    by (simp add: start_def)
  have nv: "no_valid_cache scripted_env (?w\<lparr>token_cache := stored_until 1000000\<rparr>)"
    by (simp add: no_valid_cache_def loadCachedToken_def stored_until_def start_def
          scripted_env_def)
  have hit: "loadCachedToken (?w\<lparr>token_cache := stored_until 1000001\<rparr>)
      = Some \<lparr>access_token = Some ''cached'', expires_in = 3600, token_type = ''Bearer'',
             scope = ''email'', expiresAt = 1000001\<rparr>"
    by (simp add: loadCachedToken_def stored_until_def)
  have now: "date_now scripted_env (outside (?w\<lparr>token_cache := stored_until 1000001\<rparr>)) = 1000000"
    by (simp add: scripted_env_def start_def)
  from cache_fast_path [of "?w\<lparr>token_cache := stored_until 1000001\<rparr>"
      "\<lparr>access_token = Some ''cached'', expires_in = 3600, token_type = ''Bearer'',
             scope = ''email'', expiresAt = 1000001\<rparr>" scripted_env user1]
    cache_fast_path [of "?w\<lparr>token_cache := stored_until 1000000\<rparr>" undefined scripted_env user1]
    hit now nv m
  show ?thesis
    by (simp add: scripted_authenticate_ok)
qed

theorem cached_expiry_margin_witness:
  "safe_integer 1000000 \<and> safe_integer 3600 \<and> safe_integer (3600 - 30) \<and>
   safe_integer ((3600 - 30) * 1000) \<and> safe_integer (1000000 + (3600 - 30) * 1000) \<and>
   token_cache (snd (authenticate scripted_env user1 (start (login_script good_target [token_ok]))))
     = Stored fresh_token \<and>
   expiresAt fresh_token = 1000000 + (3600 - 30) * 1000 \<and>
   date_now scripted_env
     (outside (snd (authenticate scripted_env user1 (start (login_script good_target [token_ok])))))
     = 1000000"
proof -
  let ?w' = "(after_login [])\<lparr>requests := requests (after_login [])
                           @ [token_request user1 ''XYZ'' (codeVerifier pkce0)],
                         token_cache := Stored fresh_token\<rparr>"
  have safe: "safe_integer 1000000" "safe_integer 3600" "safe_integer (3600 - 30)"
    "safe_integer ((3600 - 30) * 1000)" "safe_integer (1000000 + (3600 - 30) * 1000)"
    by (simp_all add: safe_integer_def)
  have now: "date_now scripted_env (outside ?w') = 1000000"
    by (simp add: scripted_env_def after_login_def)
  have e: "expires_in fresh_token = 3600" by (simp add: fresh_token_def)
  note m = cached_expiry_margin [where E = scripted_env
      and w = "start (login_script good_target [token_ok])" and config = user1
      and t = "Some ''tok''" and w' = ?w'
      and tokenResponse = "\<lparr>tr_access_token = Some ''tok'', tr_expires_in = 3600,
                               tr_token_type = ''Bearer'', tr_scope = ''email''\<rparr>",
      THEN conjunct2, rule_format,
      OF conjI [OF start_no_valid_cache scripted_authenticate_ok]]
  then obtain c where c: "token_cache ?w' = Stored c"
    and imp: "safe_integer (date_now scripted_env (outside ?w')) \<and> safe_integer (expires_in c)
              \<and> safe_integer (expires_in c - 30)
              \<and> safe_integer ((expires_in c - 30) * 1000)
              \<and> safe_integer (date_now scripted_env (outside ?w') + (expires_in c - 30) * 1000)
            \<longrightarrow> expiresAt c = date_now scripted_env (outside ?w') + (expires_in c - 30) * 1000"
    by (elim exE conjE)
  from c have cf: "c = fresh_token" by simp
  from imp safe have "expiresAt fresh_token = 1000000 + (3600 - 30) * 1000"
    unfolding cf now e by simp
  with safe now show ?thesis
    by (simp add: scripted_authenticate_ok)
qed

section \<open>Properties of the PKCE material\<close>

lemma replace_twice:
  "replace_all_char CHR ''/'' CHR ''_'' (replace_all_char CHR ''+'' CHR ''-'' s) = map url_safe s"
  by (simp add: replace_all_char_def url_safe_def)

lemma url_safe_alphabet: "map url_safe base64_alphabet = base64url_alphabet"
  by (simp add: base64_alphabet_def base64url_alphabet_def url_safe_def)

lemma length_alphabets: "length base64_alphabet = 64" "length base64url_alphabet = 64"
  by (simp_all add: base64_alphabet_def base64url_alphabet_def)

lemma url_safe_b64: "n < 64 \<Longrightarrow> url_safe (b64 n) = b64url n"
proof -
  assume n: "n < 64"
  then have "url_safe (base64_alphabet ! n) = map url_safe base64_alphabet ! n"
    by (simp add: length_alphabets)
  then show ?thesis by (simp add: b64_def b64url_def url_safe_alphabet)
qed

lemma url_safe_equals: "url_safe CHR ''='' = CHR ''=''"
  by (simp add: url_safe_def)

lemma sextets:
  "unat (a :: byte) div 4 < 64"
  "unat (a :: byte) mod 4 * 16 < 64"
  "unat (a :: byte) mod 4 * 16 + unat (b :: byte) div 16 < 64"
  "unat (b :: byte) mod 16 * 4 < 64"
  "unat (b :: byte) mod 16 * 4 + unat (c :: byte) div 64 < 64"
  "unat (c :: byte) mod 64 < 64"
proof -
  have a: "unat a < 256" using unsigned_less [of a, where ?'a = nat] by simp
  have b: "unat b < 256" using unsigned_less [of b, where ?'a = nat] by simp
  have c: "unat c < 256" using unsigned_less [of c, where ?'a = nat] by simp
  show "unat a div 4 < 64" using a by simp
  have "unat a mod 4 < 4" by simp
  then show "unat a mod 4 * 16 < 64" by linarith
  have "unat b div 16 < 16" using b by simp
  with \<open>unat a mod 4 < 4\<close> show "unat a mod 4 * 16 + unat b div 16 < 64" by linarith
  have "unat b mod 16 < 16" by simp
  then show "unat b mod 16 * 4 < 64" by linarith
  have "unat c div 64 < 4" using c by simp
  with \<open>unat b mod 16 < 16\<close> show "unat b mod 16 * 4 + unat c div 64 < 64" by linarith
  show "unat c mod 64 < 64" by simp
qed

lemma padding_equals: "set (padding bs) \<subseteq> {CHR ''=''}"
  by (induction bs rule: padding.induct) simp_all

lemma base64_url_safe:
  "map url_safe (base64 bs) = base64url_unpadded bs @ padding bs"
  by (induction bs rule: base64.induct)
     (simp_all add: url_safe_b64 sextets url_safe_equals)

lemma b64url_not_equals: "n < 64 \<Longrightarrow> CHR ''='' \<noteq> b64url n"
proof -
  assume "n < 64"
  then have "base64url_alphabet ! n \<in> set base64url_alphabet"
    by (simp add: length_alphabets)
  moreover have "CHR ''='' \<notin> set base64url_alphabet"
    by (simp add: base64url_alphabet_def)
  ultimately show ?thesis by (auto simp: b64url_def)
qed

lemma base64url_no_equals: "CHR ''='' \<notin> set (base64url_unpadded bs)"
  by (induction bs rule: base64url_unpadded.induct) (simp_all add: b64url_not_equals sextets)

lemma strip_trailing_equals_padding:
  assumes "CHR ''='' \<notin> set s" and "set p \<subseteq> {CHR ''=''}"
  shows "strip_trailing_equals (s @ p) = s"
proof -
  have p: "\<And>c. c \<in> set (rev p) \<Longrightarrow> c = CHR ''=''" using assms(2) by auto
  have "dropWhile (\<lambda>c. c = CHR ''='') (rev p @ rev s) = dropWhile (\<lambda>c. c = CHR ''='') (rev s)"
    by (rule dropWhile_append2) (rule p)
  also have "\<dots> = rev s"
  proof (cases s rule: rev_cases)
    case Nil
    then show ?thesis by simp
  next
    case (snoc ys y)
    with assms(1) have "y \<noteq> CHR ''=''" by auto
    with snoc show ?thesis by simp
  qed
  finally show ?thesis by (simp add: strip_trailing_equals_def)
qed

lemma code_challenge_base64url: "code_challenge E cv = base64url_unpadded (sha256 E cv)"
  by (simp add: code_challenge_def replace_twice base64_url_safe strip_trailing_equals_padding
        base64url_no_equals padding_equals)

lemma hex_digits_distinct: "distinct ''0123456789abcdef''"
  by simp

lemma base64url_alphabet_unreserved:
  "\<forall>c \<in> set base64url_alphabet. unreserved c"
  by (simp add: base64url_alphabet_def unreserved_def is_alnum_def)

lemma hex_lower_inj: "hex_lower a = hex_lower b \<Longrightarrow> a = b"
proof -
  assume h: "hex_lower a = hex_lower b"
  define ds where "ds = ''0123456789abcdef''"
  have dist: "distinct ds" and l: "length ds = 16" by (simp_all add: ds_def)
  have a: "unat a < 256" using unsigned_less [of a, where ?'a = nat] by simp
  have b: "unat b < 256" using unsigned_less [of b, where ?'a = nat] by simp
  have da: "unat a div 16 < length ds" using a l by simp
  have db: "unat b div 16 < length ds" using b l by simp
  have ma: "unat a mod 16 < length ds" using l by simp
  have mb: "unat b mod 16 < length ds" using l by simp
  from h have "[ds ! (unat a div 16), ds ! (unat a mod 16)] = [ds ! (unat b div 16), ds ! (unat b mod 16)]"
    unfolding hex_lower_def ds_def .
  then have 1: "ds ! (unat a div 16) = ds ! (unat b div 16)"
    and 2: "ds ! (unat a mod 16) = ds ! (unat b mod 16)"
    by blast+
  from 1 have d: "unat a div 16 = unat b div 16"
    by (simp only: nth_eq_iff_index_eq [OF dist da db])
  from 2 have m: "unat a mod 16 = unat b mod 16"
    by (simp only: nth_eq_iff_index_eq [OF dist ma mb])
  have "unat a = unat a div 16 * 16 + unat a mod 16" by simp
  also have "\<dots> = unat b div 16 * 16 + unat b mod 16" by (simp only: d m)
  also have "\<dots> = unat b" by simp
  finally show "a = b" by (simp only: word_unat_eq_iff)
qed

lemma length_hex_lower: "length (hex_lower b) = 2"
  by (simp only: hex_lower_def list.size)

lemma to_hex_Cons: "to_hex (b # bs) = hex_lower b @ to_hex bs"
  by (simp add: to_hex_def)

lemma to_hex_Nil: "to_hex [] = []"
  by (simp add: to_hex_def)

lemma length_to_hex: "length (to_hex bs) = 2 * length bs"
  by (induction bs) (simp_all add: to_hex_Cons to_hex_Nil length_hex_lower)

lemma to_hex_inj: "to_hex xs = to_hex ys \<Longrightarrow> xs = ys"
proof (induction xs arbitrary: ys)
  case Nil
  then have "length (to_hex ys) = 0" by (simp add: to_hex_Nil)
  then show ?case by (simp add: length_to_hex)
next
  case (Cons x xs)
  from Cons.prems have "length (to_hex ys) = 2 * length (x # xs)"
    by (simp only: length_to_hex [symmetric])
  then have "ys \<noteq> []" by (auto simp: to_hex_Nil)
  then obtain y ys' where ys: "ys = y # ys'" by (cases ys) auto
  with Cons.prems have "hex_lower x @ to_hex xs = hex_lower y @ to_hex ys'"
    by (simp only: to_hex_Cons)
  moreover have "length (hex_lower x) = length (hex_lower y)" by (simp only: length_hex_lower)
  ultimately have "hex_lower x = hex_lower y" "to_hex xs = to_hex ys'" by simp_all
  with Cons.IH [of ys'] hex_lower_inj [of x y] ys show ?case by simp
qed

lemma base64url_in_alphabet: "set (base64url_unpadded bs) \<subseteq> set base64url_alphabet"
proof -
  have "n < 64 \<Longrightarrow> b64url n \<in> set base64url_alphabet" for n
    using nth_mem [of n base64url_alphabet] by (simp only: b64url_def length_alphabets)
  then show ?thesis
    by (induction bs rule: base64url_unpadded.induct) (simp_all add: sextets)
qed

lemma encodeURIComponent_unreserved:
  "(\<And>c. c \<in> set s \<Longrightarrow> unreserved c) \<Longrightarrow> encodeURIComponent s = s"
proof (induction s)
  case Nil
  show ?case by (simp add: encodeURIComponent_def)
next
  case (Cons c s)
  have "unreserved c" by (rule Cons.prems) simp
  moreover have "encodeURIComponent s = s" by (rule Cons.IH) (simp add: Cons.prems)
  moreover have "encodeURIComponent (c # s) = (if unreserved c then [c] else percent_byte c) @ encodeURIComponent s"
    by (simp only: encodeURIComponent_def list.map concat.simps)
  ultimately show ?case by simp
qed

lemma encodeURIComponent_challenge:
  "encodeURIComponent (code_challenge E cv) = code_challenge E cv"
proof (rule encodeURIComponent_unreserved)
  fix c assume "c \<in> set (code_challenge E cv)"
  then have "c \<in> set base64url_alphabet"
    using base64url_in_alphabet [of "sha256 E cv"] by (auto simp: code_challenge_base64url)
  with base64url_alphabet_unreserved show "unreserved c" by blast
qed

text \<open>
  C3. The code verifier is the hexadecimal encoding of the 32 bytes that \<^verbatim>\<open>randomBytes(32)\<close>
  returned: 64 characters from which the bytes can be read back. The code challenge is
  the unpadded base64url encoding of the SHA-256 digest of the verifier, and it stands
  unescaped after \<^verbatim>\<open>&code_challenge=\<close> in the authorize URL.
\<close>

theorem challenge_is_base64url_sha256:
  assumes "random_bytes E 32 (outside w) = (b1, x1)" and "length b1 = 32"
    and "pkce_setup E w = (p, w')"
  shows "codeVerifier p = to_hex b1 \<and> length (codeVerifier p) = 64
       \<and> (\<forall>b'. to_hex b' = codeVerifier p \<longrightarrow> b' = b1)
       \<and> codeChallenge p = base64url_unpadded (sha256 E (codeVerifier p))
       \<and> authorize_url config (state p) (codeChallenge p) =
           BASE_URL @ ''/auth/oauth2/authorize?''
           @ ''client_id='' @ encodeURIComponent (clientId config)
           @ ''&response_type=code''
           @ ''&redirect_uri='' @ encodeURIComponent REDIRECT_URI
           @ ''&scope='' @ encodeURIComponent SCOPES
           @ ''&state='' @ encodeURIComponent (state p)
           @ ''&code_challenge='' @ base64url_unpadded (sha256 E (codeVerifier p))
           @ ''&code_challenge_method=S256&response_mode=query&action=sign_in''"
proof -
  from assms(1,3) have v: "codeVerifier p = to_hex b1"
    and c: "codeChallenge p = code_challenge E (to_hex b1)"
    by (auto simp: pkce_setup_def split: prod.splits)
  have l: "length (codeVerifier p) = 64" using assms(2) by (simp add: v length_to_hex)
  have i: "\<forall>b'. to_hex b' = codeVerifier p \<longrightarrow> b' = b1"
    using to_hex_inj v by auto
  have c': "codeChallenge p = base64url_unpadded (sha256 E (codeVerifier p))"
    by (simp add: c v code_challenge_base64url)
  have "encodeURIComponent (codeChallenge p) = base64url_unpadded (sha256 E (codeVerifier p))"
    using encodeURIComponent_challenge [of E "to_hex b1"] c c' by simp
  then have u: "authorize_url config (state p) (codeChallenge p) =
           BASE_URL @ ''/auth/oauth2/authorize?''
           @ ''client_id='' @ encodeURIComponent (clientId config)
           @ ''&response_type=code''
           @ ''&redirect_uri='' @ encodeURIComponent REDIRECT_URI
           @ ''&scope='' @ encodeURIComponent SCOPES
           @ ''&state='' @ encodeURIComponent (state p)
           @ ''&code_challenge='' @ base64url_unpadded (sha256 E (codeVerifier p))
           @ ''&code_challenge_method=S256&response_mode=query&action=sign_in''"
    by (simp add: authorize_url_def)
  from v l i c' u show ?thesis by blast
qed

lemma bytes_fb:
  "replicate 32 (0xfb :: byte) =
     [0xfb, 0xfb, 0xfb, 0xfb, 0xfb, 0xfb, 0xfb, 0xfb, 0xfb, 0xfb, 0xfb, 0xfb, 0xfb, 0xfb, 0xfb,
      0xfb, 0xfb, 0xfb, 0xfb, 0xfb, 0xfb, 0xfb, 0xfb, 0xfb, 0xfb, 0xfb, 0xfb, 0xfb, 0xfb, 0xfb,
      0xfb, 0xfb]"
  by (simp add: eval_nat_numeral)

lemma base64url_fb:
  "base64url_unpadded (replicate 32 (0xfb :: byte)) =
     ''-_v7-_v7-_v7-_v7-_v7-_v7-_v7-_v7-_v7-_v7-_s''"
  by (simp add: bytes_fb b64url_def base64url_alphabet_def)

theorem challenge_is_base64url_sha256_witness:
  "length (replicate 32 (0x2a :: byte)) = 32 \<and>
   codeVerifier pkce0 = ''2a2a2a2a2a2a2a2a2a2a2a2a2a2a2a2a2a2a2a2a2a2a2a2a2a2a2a2a2a2a2a2a'' \<and>
   codeChallenge pkce0 = ''-_v7-_v7-_v7-_v7-_v7-_v7-_v7-_v7-_v7-_v7-_s''"
proof -
  have r: "random_bytes scripted_env 32 (outside (start [])) = (replicate 32 0x2a, outside (start []))"
    by (simp add: scripted_env_def)
  have n: "length (replicate 32 (0x2a :: byte)) = 32" by simp
  have s: "sha256 scripted_env x = replicate 32 0xfb" for x by (simp add: scripted_env_def)
  from challenge_is_base64url_sha256 [OF r n scripted_pkce, of user1]
  show ?thesis
    by (simp add: s base64url_fb to_hex_32 state0_def)
qed

section \<open>Properties of orderObjectByKeys\<close>

lemma first_occurrences_distinct: "distinct xs \<Longrightarrow> first_occurrences xs = xs"
proof (induction xs)
  case Nil
  show ?case by simp
next
  case (Cons x xs)
  then have "first_occurrences xs = xs" "x \<notin> set xs" by simp_all
  then show ?case by (simp add: removeAll_id)
qed

lemma keys_js_assign_plain:
  assumes "\<not> is_array_index k" and "k \<noteq> ''__proto__''"
  shows "map fst (js_assign k v ps)
           = (if k \<in> set (map fst ps) then map fst ps else map fst ps @ [k])"
  using assms by (simp add: js_assign_def fst_replace del: map_map)

lemma filter_removeAll:
  "filter P (removeAll x xs) = filter (\<lambda>y. P y \<and> y \<noteq> x) xs"
  by (induction xs) auto

lemma keys_fold_order:
  assumes "plain_keys order"
  shows "map fst (fold (\<lambda>key ordered. if js_in key obj then js_assign key (js_get obj key) ordered
                                     else ordered) order acc)
         = map fst acc
           @ filter (\<lambda>k. k \<in> set (map fst obj) \<and> k \<notin> set (map fst acc)) (first_occurrences order)"
  using assms
proof (induction order arbitrary: acc)
  case Nil
  show ?case by simp
next
  case (Cons k ks)
  let ?f = "\<lambda>key ordered. if js_in key obj then js_assign key (js_get obj key) ordered else ordered"
  from Cons.prems have k: "\<not> is_array_index k" "k \<notin> set object_prototype_keys"
    and ks: "plain_keys ks" by (simp_all add: plain_keys_def)
  from k(2) have np: "k \<noteq> ''__proto__''" by (auto simp: object_prototype_keys_def)
  have in_iff: "js_in k obj \<longleftrightarrow> k \<in> set (map fst obj)" using k(2) by (simp add: js_in_def)
  note IH = Cons.IH [OF ks]
  show ?case
  proof (cases "k \<in> set (map fst obj) \<and> k \<notin> set (map fst acc)")
    case True
    then have "map fst (?f k acc) = map fst acc @ [k]"
      using in_iff keys_js_assign_plain [OF k(1) np, of "js_get obj k" acc] by simp
    then have "map fst (fold ?f (k # ks) acc)
        = (map fst acc @ [k])
          @ filter (\<lambda>x. x \<in> set (map fst obj) \<and> x \<notin> set (map fst acc @ [k])) (first_occurrences ks)"
      using IH [of "?f k acc"] by simp
    also have "\<dots> = map fst acc
           @ filter (\<lambda>x. x \<in> set (map fst obj) \<and> x \<notin> set (map fst acc)) (first_occurrences (k # ks))"
      using True by (auto simp: filter_removeAll intro: filter_cong)
    finally show ?thesis .
  next
    case False
    then have "map fst (?f k acc) = map fst acc"
      using in_iff keys_js_assign_plain [OF k(1) np, of "js_get obj k" acc] by auto
    then have "map fst (fold ?f (k # ks) acc)
        = map fst acc
          @ filter (\<lambda>x. x \<in> set (map fst obj) \<and> x \<notin> set (map fst acc)) (first_occurrences ks)"
      using IH [of "?f k acc"] by simp
    also have "\<dots> = map fst acc
           @ filter (\<lambda>x. x \<in> set (map fst obj) \<and> x \<notin> set (map fst acc)) (first_occurrences (k # ks))"
      using False by (auto simp: filter_removeAll intro: filter_cong)
    finally show ?thesis .
  qed
qed

lemma values_fold_order:
  assumes "plain_keys order"
  shows "map_of (fold (\<lambda>key ordered. if js_in key obj then js_assign key (js_get obj key) ordered
                                     else ordered) order acc) x
         = (if x \<in> set order \<and> x \<in> set (map fst obj) then map_of obj x else map_of acc x)"
  using assms
proof (induction order arbitrary: acc)
  case Nil
  show ?case by simp
next
  case (Cons k ks)
  from Cons.prems have k: "k \<notin> set object_prototype_keys"
    and ks: "plain_keys ks" by (simp_all add: plain_keys_def)
  from k have np: "k \<noteq> ''__proto__''" by (auto simp: object_prototype_keys_def)
  have in_iff: "js_in k obj \<longleftrightarrow> k \<in> set (map fst obj)" using k by (simp add: js_in_def)
  have get: "k \<in> set (map fst obj) \<Longrightarrow> Some (js_get obj k) = map_of obj k"
    by (auto simp: js_get_def map_of_eq_None_iff split: option.splits)
  show ?case
    using get np
    by (auto simp: Cons.IH [OF ks] in_iff map_of_js_assign_at map_of_eq_None_iff
             split: option.splits)
qed

lemma orderObjectByKeys_keys:
  "plain_keys orderArray \<Longrightarrow>
   map fst (orderObjectByKeys obj orderArray)
     = filter (\<lambda>k. k \<in> set (map fst obj)) (first_occurrences orderArray)"
  using keys_fold_order [of orderArray obj "[]"] by (simp add: orderObjectByKeys_def)

lemma orderObjectByKeys_values:
  "plain_keys orderArray \<Longrightarrow>
   map_of (orderObjectByKeys obj orderArray) k
     = (if k \<in> set orderArray \<and> k \<in> set (map fst obj) then map_of obj k else None)"
  using values_fold_order [of orderArray obj "[]" k] by (simp add: orderObjectByKeys_def)

lemma field_orders_plain:
  "plain_keys TRIP_UPDATE_FIELD_ORDER" "plain_keys LODGING_FIELD_ORDER"
  "plain_keys AIR_FIELD_ORDER" "plain_keys TRANSPORT_FIELD_ORDER"
  "plain_keys ACTIVITY_FIELD_ORDER"
  by (simp_all add: plain_keys_def TRIP_UPDATE_FIELD_ORDER_def LODGING_FIELD_ORDER_def
        AIR_FIELD_ORDER_def TRANSPORT_FIELD_ORDER_def ACTIVITY_FIELD_ORDER_def
        is_array_index_def is_digit_def object_prototype_keys_def)

lemma field_orders_distinct:
  "distinct TRIP_UPDATE_FIELD_ORDER" "distinct LODGING_FIELD_ORDER"
  "distinct AIR_FIELD_ORDER" "distinct TRANSPORT_FIELD_ORDER"
  "distinct ACTIVITY_FIELD_ORDER"
  by (simp_all add: TRIP_UPDATE_FIELD_ORDER_def LODGING_FIELD_ORDER_def
        AIR_FIELD_ORDER_def TRANSPORT_FIELD_ORDER_def ACTIVITY_FIELD_ORDER_def)

lemma update_payload_keys:
  assumes "plain_keys fieldOrder" and "distinct fieldOrder"
    and "\<not> is_array_index name" and "name \<noteq> ''__proto__''"
  shows "\<exists>fields. update_payload name fieldOrder data = [(name, Obj fields)]
           \<and> map fst fields = filter (\<lambda>k. k \<in> set (map fst (clean_entries data []))) fieldOrder
           \<and> set (map fst fields) \<subseteq> set fieldOrder"
proof -
  let ?fields = "orderObjectByKeys (clean_entries data []) fieldOrder"
  have "update_payload name fieldOrder data = [(name, Obj ?fields)]"
    using assms(3,4) by (simp add: update_payload_def js_object_def js_assign_def)
  moreover have "map fst ?fields = filter (\<lambda>k. k \<in> set (map fst (clean_entries data []))) fieldOrder"
    using orderObjectByKeys_keys [OF assms(1)] first_occurrences_distinct [OF assms(2)] by simp
  moreover from this have "set (map fst ?fields) \<subseteq> set fieldOrder" by auto
  ultimately show ?thesis by blast
qed

lemma payload_names_plain:
  "\<not> is_array_index ''Trip''" "\<not> is_array_index ''LodgingObject''"
  "\<not> is_array_index ''AirObject''" "\<not> is_array_index ''TransportObject''"
  "\<not> is_array_index ''ActivityObject''"
  by (simp_all add: is_array_index_def is_digit_def)

text \<open>
  C10 (amended). For a plain object \<open>obj\<close> and an order list without array indices and
  without names of members of \<^verbatim>\<open>Object.prototype\<close>, the own keys of
  \<^verbatim>\<open>orderObjectByKeys(obj, orderArray)\<close> are the keys of \<open>obj\<close> that occur in the order
  list, in the sequence of the order list, each with the value it has in \<open>obj\<close>; the other
  keys of \<open>obj\<close> are dropped. The field orders of the five update operations are such
  lists, so for a data object without an own \<^verbatim>\<open>__proto__\<close> key (its cleaned copy is then a
  plain object) each payload object has exactly the fields of the cleaned data that its
  field order lists, in that order.
\<close>

theorem orderObjectByKeys_selects:
  "(plain_keys orderArray \<longrightarrow>
      map fst (orderObjectByKeys obj orderArray)
        = filter (\<lambda>k. k \<in> set (map fst obj)) (first_occurrences orderArray)
      \<and> (\<forall>k. map_of (orderObjectByKeys obj orderArray) k
             = (if k \<in> set orderArray \<and> k \<in> set (map fst obj) then map_of obj k else None))) \<and>
   (''__proto__'' \<notin> set (map fst tripData) \<longrightarrow>
      (\<exists>fields. updateTrip_payload tripData = [(''Trip'', Obj fields)]
        \<and> map fst fields
            = filter (\<lambda>k. k \<in> set (map fst (clean_entries tripData []))) TRIP_UPDATE_FIELD_ORDER)) \<and>
   (''__proto__'' \<notin> set (map fst lodgingObject) \<longrightarrow>
      (\<exists>fields. updateHotel_payload lodgingObject = [(''LodgingObject'', Obj fields)]
        \<and> map fst fields
            = filter (\<lambda>k. k \<in> set (map fst (clean_entries lodgingObject []))) LODGING_FIELD_ORDER)) \<and>
   (''__proto__'' \<notin> set (map fst airObject) \<longrightarrow>
      (\<exists>fields. updateFlight_payload airObject = [(''AirObject'', Obj fields)]
        \<and> map fst fields
            = filter (\<lambda>k. k \<in> set (map fst (clean_entries airObject []))) AIR_FIELD_ORDER)) \<and>
   (''__proto__'' \<notin> set (map fst transportObject) \<longrightarrow>
      (\<exists>fields. updateTransport_payload transportObject = [(''TransportObject'', Obj fields)]
        \<and> map fst fields
            = filter (\<lambda>k. k \<in> set (map fst (clean_entries transportObject []))) TRANSPORT_FIELD_ORDER)) \<and>
   (''__proto__'' \<notin> set (map fst activityObject) \<longrightarrow>
      (\<exists>fields. updateActivity_payload activityObject = [(''ActivityObject'', Obj fields)]
        \<and> map fst fields
            = filter (\<lambda>k. k \<in> set (map fst (clean_entries activityObject []))) ACTIVITY_FIELD_ORDER))"
proof (intro conjI impI allI)
  assume p: "plain_keys orderArray"
  show "map fst (orderObjectByKeys obj orderArray)
        = filter (\<lambda>k. k \<in> set (map fst obj)) (first_occurrences orderArray)"
    by (rule orderObjectByKeys_keys [OF p])
  show "map_of (orderObjectByKeys obj orderArray) k
             = (if k \<in> set orderArray \<and> k \<in> set (map fst obj) then map_of obj k else None)" for k
    by (rule orderObjectByKeys_values [OF p])
next
  show "\<exists>fields. updateTrip_payload tripData = [(''Trip'', Obj fields)]
        \<and> map fst fields
            = filter (\<lambda>k. k \<in> set (map fst (clean_entries tripData []))) TRIP_UPDATE_FIELD_ORDER"
    using update_payload_keys [OF field_orders_plain(1) field_orders_distinct(1)
        payload_names_plain(1), of tripData]
    unfolding updateTrip_payload_def by auto
next
  show "\<exists>fields. updateHotel_payload lodgingObject = [(''LodgingObject'', Obj fields)]
        \<and> map fst fields
            = filter (\<lambda>k. k \<in> set (map fst (clean_entries lodgingObject []))) LODGING_FIELD_ORDER"
    using update_payload_keys [OF field_orders_plain(2) field_orders_distinct(2)
        payload_names_plain(2), of lodgingObject]
    unfolding updateHotel_payload_def by auto
next
  show "\<exists>fields. updateFlight_payload airObject = [(''AirObject'', Obj fields)]
        \<and> map fst fields
            = filter (\<lambda>k. k \<in> set (map fst (clean_entries airObject []))) AIR_FIELD_ORDER"
    using update_payload_keys [OF field_orders_plain(3) field_orders_distinct(3)
        payload_names_plain(3), of airObject]
    unfolding updateFlight_payload_def by auto
next
  show "\<exists>fields. updateTransport_payload transportObject = [(''TransportObject'', Obj fields)]
        \<and> map fst fields
            = filter (\<lambda>k. k \<in> set (map fst (clean_entries transportObject []))) TRANSPORT_FIELD_ORDER"
    using update_payload_keys [OF field_orders_plain(4) field_orders_distinct(4)
        payload_names_plain(4), of transportObject]
    unfolding updateTransport_payload_def by auto
next
  show "\<exists>fields. updateActivity_payload activityObject = [(''ActivityObject'', Obj fields)]
        \<and> map fst fields
            = filter (\<lambda>k. k \<in> set (map fst (clean_entries activityObject []))) ACTIVITY_FIELD_ORDER"
    using update_payload_keys [OF field_orders_plain(5) field_orders_distinct(5)
        payload_names_plain(5), of activityObject]
    unfolding updateActivity_payload_def by auto
qed

theorem index_keys_come_first:
  "map fst (orderObjectByKeys [(''1'', Str ''x''), (''b'', Str ''y'')] [''b'', ''1''])
     = [''1'', ''b'']"
  by (simp add: orderObjectByKeys_def js_in_def js_get_def js_assign_def is_array_index_def
        is_digit_def nat_of_digits_def object_prototype_keys_def)

lemma inherited_keys_are_copied:
  "orderObjectByKeys [] [''toString''] = [(''toString'', ProtoMember ''toString'')]"
  by (simp add: orderObjectByKeys_def js_in_def js_get_def js_assign_def is_array_index_def
        is_digit_def object_prototype_keys_def)

lemma sample_trip_clean:
  "map fst (clean_entries sample_trip []) = [''display_name'', ''color'', ''start_date'']"
  by (simp add: sample_trip_def js_assign_def is_array_index_def is_digit_def)

theorem orderObjectByKeys_selects_witness:
  "plain_keys [''display_name'', ''uuid'', ''notes''] \<and>
   ''__proto__'' \<notin> set (map fst sample_trip) \<and>
   map fst (orderObjectByKeys sample_object [''display_name'', ''uuid'', ''notes''])
     = [''display_name'', ''uuid''] \<and>
   map_of (orderObjectByKeys sample_object [''display_name'', ''uuid'', ''notes'']) ''uuid''
     = Some (Str ''u1'') \<and>
   (\<exists>fields. updateTrip_payload sample_trip = [(''Trip'', Obj fields)]
      \<and> map fst fields = [''start_date'', ''display_name''])"
proof -
  have p: "plain_keys [''display_name'', ''uuid'', ''notes'']"
    by (simp add: plain_keys_def is_array_index_def is_digit_def object_prototype_keys_def)
  note t = orderObjectByKeys_selects [of "[''display_name'', ''uuid'', ''notes'']"
      sample_object sample_trip "[]" "[]" "[]" "[]"]
  note t1 = t [THEN conjunct1, rule_format, OF p]
  have np: "''__proto__'' \<notin> set (map fst sample_trip)" by (simp add: sample_trip_def)
  note t2 = t [THEN conjunct2, THEN conjunct1, rule_format, OF np]
  have k: "map fst (orderObjectByKeys sample_object [''display_name'', ''uuid'', ''notes''])
     = [''display_name'', ''uuid'']"
    unfolding t1 [THEN conjunct1] by (simp add: sample_object_def)
  have v: "map_of (orderObjectByKeys sample_object [''display_name'', ''uuid'', ''notes'']) ''uuid''
     = Some (Str ''u1'')"
    unfolding t1 [THEN conjunct2, rule_format] by (simp add: sample_object_def)
  from t2 obtain fields where f: "updateTrip_payload sample_trip = [(''Trip'', Obj fields)]"
    and g: "map fst fields = filter (\<lambda>k. k \<in> set (map fst (clean_entries sample_trip [])))
        TRIP_UPDATE_FIELD_ORDER"
    by (elim exE conjE)
  have h: "map fst fields = [''start_date'', ''display_name'']"
    by (simp add: g sample_trip_clean TRIP_UPDATE_FIELD_ORDER_def)
  have e: "\<exists>fields. updateTrip_payload sample_trip = [(''Trip'', Obj fields)]
      \<and> map fst fields = [''start_date'', ''display_name'']"
    by (rule exI [of _ fields]) (rule conjI [OF f h])
  show ?thesis by (intro conjI) (rule p, rule np, rule k, rule v, rule e)
qed

end
